theory Spec2Isabelle
  imports Main "HOL-Library.Word"
begin

unbundle bit_operations_syntax

section \<open>Data model of the task core\<close>

text \<open>
  The embedding follows \<^verbatim>\<open>src/kernel/task.cpp\<close> and \<^verbatim>\<open>src/kernel/object_table.cpp\<close>.
  Pointers and \<^verbatim>\<open>ulong\<close> values are 64-bit words; a nullable pointer is an \<open>option\<close>.
  Object identifiers are array indices and are kept as natural numbers. Objects live in
  an explicit store \<open>Tasks\<close> from addresses to task records, so that \<^verbatim>\<open>delete this\<close>
  and a later access through a dangling pointer are visible. Accounting fields (boot
  times, runtime, name) and the spin locks do not influence any function modelled
  here and are left out; the model is sequential.
\<close>

type_synonym ulong = "64 word"
type_synonym addr = "64 word"
type_synonym ObjectId = nat

text \<open>
  Every way in which the kernel stops instead of returning is an error value:
  a \<^verbatim>\<open>BugOn\<close> whose predicate holds, a call through a null pointer, and an access to an
  object that is not (or no longer) allocated.
\<close>

datatype error = BugCheck | NullDeref | BadPointer

definition bindE :: "error + 'a \<Rightarrow> ('a \<Rightarrow> error + 'b) \<Rightarrow> error + 'b" where
  "bindE m f = (case m of Inl e \<Rightarrow> Inl e | Inr x \<Rightarrow> f x)"

text \<open>
  Modelled from the spec: the header \<^verbatim>\<open>task.h\<close> with the state constants is not part of
  the sources. The spec lists the states New, Waiting, Running and Exited; the
  constructor's initial value \<^verbatim>\<open>State(0)\<close> is the state New.
\<close>

datatype TaskState = StateNew | StateWaiting | StateRunning | StateExited

text \<open>
  The fields of \<^verbatim>\<open>Task\<close> that its constructor initialises. The queue back-pointer
  \<^verbatim>\<open>TaskQueue\<close> names a per-CPU queue by the index of its CPU. The atomic counters
  (\<^verbatim>\<open>RefCounter\<close> here, the context-switch counter of a queue below) are integers: the
  source compares the reference count with zero as a signed value, and the modelled
  functions move a counter by one step at a time.
\<close>

record Task =
  TaskQueue :: "nat option"
  Rsp :: ulong
  State :: TaskState
  Flags :: ulong
  Prev :: "addr option"
  Magic :: ulong
  CpuAffinity :: ulong
  Pid :: ObjectId
  Stack :: "addr option"
  Function :: "addr option"
  Ctx :: "addr option"
  RefCounter :: int

text \<open>
  Modelled from the spec: \<^verbatim>\<open>struct Stack\<close> is declared in \<^verbatim>\<open>task.h\<close>, which is not part of
  the sources. Its header carries \<^verbatim>\<open>Magic1\<close>, the back-pointer to the task and \<^verbatim>\<open>Magic2\<close>;
  the raw stack words are kept in the memory \<open>Mem\<close> of the kernel state.
\<close>

record Stack =
  Magic1 :: ulong
  StackTask :: addr
  Magic2 :: ulong

text \<open>
  Modelled from the spec: the per-CPU \<^verbatim>\<open>TaskQueue\<close> (\<^verbatim>\<open>sched.h\<close>) is not part of the
  sources. It holds the ordered list of its tasks and the context-switch counter.
\<close>

record TaskQueue =
  QueueTasks :: "addr list"
  SwitchContextCounter :: int

text \<open>
  Constants, layouts and helpers that are declared in headers outside the sources are
  parameters of the model: the invalid object id, the pointer hash of the task table,
  the stack geometry and magics, the layout of the register frame \<^verbatim>\<open>Context\<close> and the
  address of the trampoline \<^verbatim>\<open>Task::Exec\<close>.
\<close>

record Config =
  InvalidObjectId :: ObjectId
  HashPtr :: "addr \<Rightarrow> nat"
  StackSize :: ulong
  PageSize :: ulong
  StackBottomOff :: ulong
  StackTopOff :: ulong
  StackMagic1 :: ulong
  StackMagic2 :: ulong
  TaskMagic :: ulong
  ContextSize :: ulong
  RdiOff :: ulong
  RflagsOff :: ulong
  ExecAddr :: ulong

text \<open>
  The kernel state: the object store, the allocated stacks, raw memory, the log of
  freed stacks (a ghost field that counts the frees), the task table (its embedded
  object table \<open>ObjectArray\<close> and its hash buckets \<open>TaskList\<close>) and the CPU table
  (running mask and the per-CPU queues, a queue being identified by its CPU index).
\<close>

record Kernel =
  Tasks :: "addr \<Rightarrow> Task option"
  Stacks :: "addr \<Rightarrow> Stack option"
  Mem :: "addr \<Rightarrow> ulong"
  FreedStacks :: "addr list"
  ObjectArray :: "addr option list"
  TaskList :: "addr list list"
  RunningCpus :: ulong
  CpuArray :: "TaskQueue list"

section \<open>Task: construction and reference counting\<close>

text \<open>\<^verbatim>\<open>Task::Task()\<close>\<close>

definition Task_new :: "Config \<Rightarrow> Task" where
  "Task_new cfg =
     \<lparr> TaskQueue = None, Rsp = 0, State = StateNew, Flags = 0, Prev = None,
       Magic = TaskMagic cfg, CpuAffinity = NOT 0, Pid = InvalidObjectId cfg,
       Stack = None, Function = None, Ctx = None, RefCounter = 1 \<rparr>"

text \<open>Placing a newly constructed task at address \<open>t\<close> (\<^verbatim>\<open>new Task()\<close>).\<close>

definition new_Task :: "Config \<Rightarrow> addr \<Rightarrow> Kernel \<Rightarrow> Kernel" where
  "new_Task cfg t s = s\<lparr>Tasks := (Tasks s)(t \<mapsto> Task_new cfg)\<rparr>"

definition setTask :: "addr \<Rightarrow> Task \<Rightarrow> Kernel \<Rightarrow> Kernel" where
  "setTask t T s = s\<lparr>Tasks := (Tasks s)(t \<mapsto> T)\<rparr>"

text \<open>\<^verbatim>\<open>delete Stack\<close>: the stack leaves the store and the free is logged.\<close>

definition delete_Stack :: "addr \<Rightarrow> Kernel \<Rightarrow> error + Kernel" where
  "delete_Stack k s =
     (case Stacks s k of
        None \<Rightarrow> Inl BadPointer
      | Some st \<Rightarrow> Inr (s\<lparr>Stacks := (Stacks s)(k := None), FreedStacks := FreedStacks s @ [k]\<rparr>))"

text \<open>\<^verbatim>\<open>Task::Release\<close>\<close>

definition Task_Release :: "addr \<Rightarrow> Kernel \<Rightarrow> error + Kernel" where
  "Task_Release t s =
     (case Tasks s t of
        None \<Rightarrow> Inl BadPointer
      | Some T \<Rightarrow>
          if TaskQueue T \<noteq> None then Inl BugCheck
          else (case Stack T of
                  None \<Rightarrow> Inr s
                | Some k \<Rightarrow> bindE (delete_Stack k s) (\<lambda>s1. Inr (setTask t (T\<lparr>Stack := None\<rparr>) s1))))"

text \<open>\<^verbatim>\<open>delete this\<close>: the destructor \<^verbatim>\<open>Task::~Task\<close> runs its checks, then the object is freed.\<close>

definition Task_delete :: "addr \<Rightarrow> Kernel \<Rightarrow> error + Kernel" where
  "Task_delete t s =
     (case Tasks s t of
        None \<Rightarrow> Inl BadPointer
      | Some T \<Rightarrow>
          if TaskQueue T \<noteq> None then Inl BugCheck
          else if Stack T \<noteq> None then Inl BugCheck
          else Inr (s\<lparr>Tasks := (Tasks s)(t := None)\<rparr>))"

text \<open>\<^verbatim>\<open>Task::Get\<close>\<close>

definition Task_Get :: "addr \<Rightarrow> Kernel \<Rightarrow> error + Kernel" where
  "Task_Get t s =
     (case Tasks s t of
        None \<Rightarrow> Inl BadPointer
      | Some T \<Rightarrow>
          if RefCounter T \<le> 0 then Inl BugCheck
          else Inr (setTask t (T\<lparr>RefCounter := RefCounter T + 1\<rparr>) s))"

text \<open>\<^verbatim>\<open>Task::Put\<close>; \<^verbatim>\<open>DecAndTest\<close> decrements and reports whether the counter is now zero.\<close>

definition Task_Put :: "addr \<Rightarrow> Kernel \<Rightarrow> error + Kernel" where
  "Task_Put t s =
     (case Tasks s t of
        None \<Rightarrow> Inl BadPointer
      | Some T \<Rightarrow>
          if RefCounter T \<le> 0 then Inl BugCheck
          else (let s1 = setTask t (T\<lparr>RefCounter := RefCounter T - 1\<rparr>) s
                in if RefCounter T - 1 = 0
                   then bindE (Task_Release t s1) (Task_delete t)
                   else Inr s1))"

section \<open>ObjectTable\<close>

text \<open>
  The objects stored in the table are tasks: \<^verbatim>\<open>Task\<close> is the only \<^verbatim>\<open>Object\<close> of the sources,
  and the table's calls of \<^verbatim>\<open>Get\<close> and \<^verbatim>\<open>Put\<close> on an object are \<^verbatim>\<open>Task::Get\<close> and \<^verbatim>\<open>Task::Put\<close>.
  \<open>ObjectArray\<close> is the array of the task table's embedded object table; its length is
  \<^verbatim>\<open>MaxObjects\<close>.
\<close>

text \<open>The scan of \<^verbatim>\<open>ObjectTable::Insert\<close> for the first empty slot, from \<open>objectId\<close> on.\<close>

function InsertScan :: "addr option list \<Rightarrow> nat \<Rightarrow> nat option" where
  "InsertScan arr objectId =
     (if objectId < length arr
      then (if arr ! objectId = None then Some objectId else InsertScan arr (objectId + 1))
      else None)"
  by pat_completeness auto
termination
  by (relation "measure (\<lambda>(arr, objectId). length arr - objectId)") auto

declare InsertScan.simps [simp del]

text \<open>\<^verbatim>\<open>ObjectTable::Insert\<close>\<close>

definition ObjectTable_Insert :: "Config \<Rightarrow> addr \<Rightarrow> Kernel \<Rightarrow> error + (ObjectId \<times> Kernel)" where
  "ObjectTable_Insert cfg object s =
     bindE (Task_Get object s) (\<lambda>s1.
       case InsertScan (ObjectArray s1) 0 of
         Some objectId \<Rightarrow>
           Inr (objectId, s1\<lparr>ObjectArray := (ObjectArray s1)[objectId := Some object]\<rparr>)
       | None \<Rightarrow> bindE (Task_Put object s1) (\<lambda>s2. Inr (InvalidObjectId cfg, s2)))"

text \<open>\<^verbatim>\<open>ObjectTable::Remove\<close>\<close>

definition ObjectTable_Remove :: "ObjectId \<Rightarrow> Kernel \<Rightarrow> error + Kernel" where
  "ObjectTable_Remove objectId s =
     (if objectId \<ge> length (ObjectArray s) then Inr s
      else (let object = ObjectArray s ! objectId;
                s1 = s\<lparr>ObjectArray := (ObjectArray s)[objectId := None]\<rparr>
            in case object of None \<Rightarrow> Inr s1 | Some ob \<Rightarrow> Task_Put ob s1))"

text \<open>\<^verbatim>\<open>ObjectTable::Lookup\<close>\<close>

definition ObjectTable_Lookup :: "ObjectId \<Rightarrow> Kernel \<Rightarrow> error + (addr option \<times> Kernel)" where
  "ObjectTable_Lookup objectId s =
     (if objectId \<ge> length (ObjectArray s) then Inr (None, s)
      else (case ObjectArray s ! objectId of
              None \<Rightarrow> Inr (None, s)
            | Some ob \<Rightarrow> bindE (Task_Get ob s) (\<lambda>s1. Inr (Some ob, s1))))"

section \<open>TaskTable\<close>

text \<open>
  The hash buckets are intrusive doubly-linked lists threaded through the tasks'
  \<^verbatim>\<open>TableListEntry\<close>; a bucket is modelled as the list of the linked tasks. An entry is
  empty when its task is linked in no bucket, and \<^verbatim>\<open>RemoveInit\<close> unlinks the entry from
  whichever list holds it. The number of buckets is the length of \<open>TaskList\<close>; in the
  source it is the size of an array, hence positive.
\<close>

definition TableListEntry_IsEmpty :: "addr \<Rightarrow> Kernel \<Rightarrow> bool" where
  "TableListEntry_IsEmpty task s \<longleftrightarrow> task \<notin> set (concat (TaskList s))"

definition TableListEntry_RemoveInit :: "addr \<Rightarrow> Kernel \<Rightarrow> Kernel" where
  "TableListEntry_RemoveInit task s = s\<lparr>TaskList := map (removeAll task) (TaskList s)\<rparr>"

text \<open>\<^verbatim>\<open>TaskTable::Insert\<close>\<close>

definition TaskTable_Insert :: "Config \<Rightarrow> addr \<Rightarrow> Kernel \<Rightarrow> error + (bool \<times> Kernel)" where
  "TaskTable_Insert cfg task s =
     bindE (ObjectTable_Insert cfg task s) (\<lambda>(pid, s1).
       if pid = InvalidObjectId cfg then Inr (False, s1)
       else (case Tasks s1 task of
               None \<Rightarrow> Inl BadPointer
             | Some T \<Rightarrow>
                 bindE (Task_Get task (setTask task (T\<lparr>Pid := pid\<rparr>) s1)) (\<lambda>s2.
                   let i = HashPtr cfg task mod length (TaskList s2)
                   in if \<not> TableListEntry_IsEmpty task s2 then Inl BugCheck
                      else Inr (True, s2\<lparr>TaskList := (TaskList s2)[i := TaskList s2 ! i @ [task]]\<rparr>))))"

text \<open>
  \<^verbatim>\<open>TaskTable::Remove\<close>. The list entry is a member of the task object, so unlinking it
  needs the task to be still allocated after the object table dropped its reference.
\<close>

definition TaskTable_Remove :: "addr \<Rightarrow> Kernel \<Rightarrow> error + Kernel" where
  "TaskTable_Remove task s =
     (case Tasks s task of
        None \<Rightarrow> Inl BadPointer
      | Some T \<Rightarrow>
          bindE (ObjectTable_Remove (Pid T) s) (\<lambda>s1.
            case Tasks s1 task of
              None \<Rightarrow> Inl BadPointer
            | Some T1 \<Rightarrow>
                if TableListEntry_IsEmpty task s1 then Inl BugCheck
                else Task_Put task (TableListEntry_RemoveInit task s1)))"

text \<open>\<^verbatim>\<open>TaskTable::Lookup\<close>\<close>

definition TaskTable_Lookup :: "ObjectId \<Rightarrow> Kernel \<Rightarrow> error + (addr option \<times> Kernel)" where
  "TaskTable_Lookup pid s = ObjectTable_Lookup pid s"

section \<open>Task placement\<close>

text \<open>
  The loop of \<^verbatim>\<open>Task::SelectNextTaskQueue\<close> over the 64 bits of the mask. \<open>cur\<close> is the
  task's current queue, \<open>taskQueue\<close> the best candidate so far.

  Modelled from the spec: \<^verbatim>\<open>CpuTable::GetCpu\<close> (\<^verbatim>\<open>cpu.h\<close>) is not part of the sources. The
  CPU table is a fixed array of \<^verbatim>\<open>MaxCpus\<close> descriptors, each with its local queue; an
  index beyond the array is a bug check.
\<close>

function SelectLoop ::
  "ulong \<Rightarrow> nat option \<Rightarrow> TaskQueue list \<Rightarrow> nat \<Rightarrow> nat option \<Rightarrow> error + nat option" where
  "SelectLoop cpuMask cur cpus i taskQueue =
     (if i < 64 then
        (if cpuMask AND push_bit i 1 \<noteq> 0 then
           (if i < length cpus then
              (if Some i = cur then SelectLoop cpuMask cur cpus (i + 1) taskQueue
               else (case taskQueue of
                       None \<Rightarrow> SelectLoop cpuMask cur cpus (i + 1) (Some i)
                     | Some q \<Rightarrow>
                         if SwitchContextCounter (cpus ! q) > SwitchContextCounter (cpus ! i)
                         then SelectLoop cpuMask cur cpus (i + 1) (Some i)
                         else SelectLoop cpuMask cur cpus (i + 1) taskQueue))
            else Inl BugCheck)
         else SelectLoop cpuMask cur cpus (i + 1) taskQueue)
      else Inr taskQueue)"
  by pat_completeness auto
termination
  by (relation "measure (\<lambda>(cpuMask, cur, cpus, i, taskQueue). 64 - i)") auto

declare SelectLoop.simps [simp del]

text \<open>The loop invariant of \<open>SelectLoop\<close>: \<open>taskQueue\<close> is the first least-loaded candidate below \<open>i\<close>.\<close>

definition SelectLoop_inv :: "ulong \<Rightarrow> nat option \<Rightarrow> TaskQueue list \<Rightarrow> nat \<Rightarrow> nat option \<Rightarrow> bool" where
  "SelectLoop_inv cpuMask cur cpus i taskQueue \<longleftrightarrow>
     (case taskQueue of
        None \<Rightarrow> (\<forall>k<i. \<not> (bit cpuMask k \<and> Some k \<noteq> cur))
      | Some j \<Rightarrow> j < i \<and> bit cpuMask j \<and> Some j \<noteq> cur \<and>
          (\<forall>k<i. bit cpuMask k \<and> Some k \<noteq> cur \<longrightarrow>
             SwitchContextCounter (cpus ! j) \<le> SwitchContextCounter (cpus ! k) \<and>
             (SwitchContextCounter (cpus ! k) = SwitchContextCounter (cpus ! j) \<longrightarrow> j \<le> k)))"

text \<open>\<^verbatim>\<open>Task::SelectNextTaskQueue\<close>\<close>

definition SelectNextTaskQueue :: "addr \<Rightarrow> Kernel \<Rightarrow> error + nat option" where
  "SelectNextTaskQueue task s =
     (case Tasks s task of
        None \<Rightarrow> Inl BadPointer
      | Some T \<Rightarrow>
          (let cpuMask = RunningCpus s AND CpuAffinity T
           in if cpuMask \<noteq> 0 then SelectLoop cpuMask (TaskQueue T) (CpuArray s) 0 None
              else Inr None))"

text \<open>
  Modelled from the spec: \<^verbatim>\<open>TaskQueue::Insert\<close> is not part of the sources. It appends
  the task to the tail of the queue's list and sets the task's queue back-pointer; the
  queue, as one of the task's owners, holds one reference.
\<close>

definition TaskQueue_Insert :: "nat \<Rightarrow> addr \<Rightarrow> Kernel \<Rightarrow> error + Kernel" where
  "TaskQueue_Insert q task s =
     (if q \<ge> length (CpuArray s) then Inl BadPointer
      else bindE (Task_Get task s) (\<lambda>s1.
             case Tasks s1 task of
               None \<Rightarrow> Inl BadPointer
             | Some T \<Rightarrow>
                 Inr (setTask task (T\<lparr>TaskQueue := Some q\<rparr>)
                       (s1\<lparr>CpuArray := (CpuArray s1)
                              [q := (CpuArray s1 ! q)\<lparr>QueueTasks := QueueTasks (CpuArray s1 ! q) @ [task]\<rparr>]\<rparr>))))"

section \<open>Starting a task\<close>

text \<open>
  Modelled from the spec: the constructor \<^verbatim>\<open>Stack::Stack(Task*)\<close> is not part of the
  sources. It fills the header: both magics and the back-pointer to the task.
  \<open>new_Stack\<close> places the stack at the address the allocator returned.
\<close>

definition new_Stack :: "Config \<Rightarrow> addr \<Rightarrow> addr \<Rightarrow> Kernel \<Rightarrow> Kernel" where
  "new_Stack cfg k task s =
     s\<lparr>Stacks := (Stacks s)(k \<mapsto> \<lparr>Magic1 = StackMagic1 cfg, StackTask = task, Magic2 = StackMagic2 cfg\<rparr>)\<rparr>"

text \<open>
  \<^verbatim>\<open>Task::PrepareStart\<close>. \<open>alloc\<close> is the result of \<^verbatim>\<open>new struct Stack(this)\<close>: the address of
  the new stack, or \<open>None\<close> when the allocator is out of memory.
\<close>

definition PrepareStart ::
  "Config \<Rightarrow> addr option \<Rightarrow> addr option \<Rightarrow> addr option \<Rightarrow> addr \<Rightarrow> Kernel \<Rightarrow> error + (bool \<times> Kernel)" where
  "PrepareStart cfg alloc func ctx task s =
     (case Tasks s task of
        None \<Rightarrow> Inl BadPointer
      | Some T \<Rightarrow>
          if Stack T \<noteq> None then Inl BugCheck
          else if Function T \<noteq> None then Inl BugCheck
          else (case alloc of
                  None \<Rightarrow> Inr (False, s)
                | Some k \<Rightarrow>
                    bindE (TaskTable_Insert cfg task
                             (setTask task (T\<lparr>Stack := Some k\<rparr>) (new_Stack cfg k task s)))
                      (\<lambda>(ok, s1).
                         case Tasks s1 task of
                           None \<Rightarrow> Inl BadPointer
                         | Some T1 \<Rightarrow>
                             if \<not> ok
                             then bindE (delete_Stack k s1)
                                    (\<lambda>s2. Inr (False, setTask task (T1\<lparr>Stack := None\<rparr>) s2))
                             else Inr (True, setTask task (T1\<lparr>Function := func, Ctx := ctx\<rparr>) s1))))"

text \<open>
  \<^verbatim>\<open>Stdlib::MemSet(p, 0, n)\<close> on the raw memory; \<open>Mem a\<close> is the 64-bit word stored in the
  8-byte slot that starts at address \<open>a\<close>.
\<close>

definition MemSetZero :: "(addr \<Rightarrow> ulong) \<Rightarrow> addr \<Rightarrow> ulong \<Rightarrow> (addr \<Rightarrow> ulong)" where
  "MemSetZero m p n = (\<lambda>a. if a - p < n then 0 else m a)"

text \<open>
  The address of the register frame that \<^verbatim>\<open>Task::Start\<close> computes: one word below the
  stack top for the return address, then \<^verbatim>\<open>sizeof(Context)\<close> below that.
\<close>

definition Start_regs :: "Config \<Rightarrow> addr \<Rightarrow> ulong" where
  "Start_regs cfg k = k + StackTopOff cfg - 8 - ContextSize cfg"

text \<open>
  The part of \<^verbatim>\<open>Task::Start\<close> between \<^verbatim>\<open>PrepareStart\<close> and the placement: the return
  address and the zeroed register frame are written below the stack top, the saved
  stack pointer is set and the state becomes Waiting.
\<close>

definition Start_InitFrame :: "Config \<Rightarrow> addr \<Rightarrow> Kernel \<Rightarrow> error + Kernel" where
  "Start_InitFrame cfg task s =
     (case Tasks s task of
        None \<Rightarrow> Inl BadPointer
      | Some T \<Rightarrow>
          (case Stack T of
             None \<Rightarrow> Inl NullDeref
           | Some k \<Rightarrow>
               (let rsp = k + StackTopOff cfg - 8;
                    m1 = (Mem s)(rsp := ExecAddr cfg);
                    regs = rsp - ContextSize cfg;
                    m2 = MemSetZero m1 regs (ContextSize cfg);
                    m3 = m2(regs + RdiOff cfg := task);
                    m4 = m3(regs + RflagsOff cfg := push_bit 9 1)
                in Inr (setTask task (T\<lparr>Rsp := regs, State := StateWaiting\<rparr>) (s\<lparr>Mem := m4\<rparr>)))))"

text \<open>
  \<^verbatim>\<open>Task::Start\<close>. The result of \<^verbatim>\<open>SelectNextTaskQueue\<close> is used without a check:
  \<^verbatim>\<open>taskQueue->Insert(this)\<close> on a null queue is a null dereference.
\<close>

definition Start ::
  "Config \<Rightarrow> addr option \<Rightarrow> addr option \<Rightarrow> addr option \<Rightarrow> addr \<Rightarrow> Kernel \<Rightarrow> error + (bool \<times> Kernel)" where
  "Start cfg alloc func ctx task s =
     bindE (PrepareStart cfg alloc func ctx task s) (\<lambda>(ok, s1).
       if \<not> ok then Inr (False, s1)
       else bindE (Start_InitFrame cfg task s1) (\<lambda>s2.
              bindE (SelectNextTaskQueue task s2) (\<lambda>taskQueue.
                case taskQueue of
                  None \<Rightarrow> Inl NullDeref
                | Some q \<Rightarrow> bindE (TaskQueue_Insert q task s2) (\<lambda>s3. Inr (True, s3)))))"

section \<open>The current task\<close>

text \<open>
  \<^verbatim>\<open>Task::GetCurrentTask\<close>; \<open>rsp\<close> is the value of \<^verbatim>\<open>GetRsp()\<close>. Reading a header where no
  stack is allocated is an access to unowned memory.

  Modelled from the spec: the macro \<^verbatim>\<open>BugOn\<close> is not part of the sources; it is a fatal
  check that panics when its predicate holds, so the \<^verbatim>\<open>return nullptr\<close> behind it is
  never reached.
\<close>

definition GetCurrentTask :: "Config \<Rightarrow> ulong \<Rightarrow> Kernel \<Rightarrow> error + addr" where
  "GetCurrentTask cfg rsp s =
     (let stack = rsp AND NOT (StackSize cfg - 1)
      in case Stacks s stack of
           None \<Rightarrow> Inl BadPointer
         | Some st \<Rightarrow>
             if Magic1 st \<noteq> StackMagic1 cfg then Inl BugCheck
             else if Magic2 st \<noteq> StackMagic2 cfg then Inl BugCheck
             else if rsp < stack + StackBottomOff cfg + PageSize cfg then Inl BugCheck
             else if rsp > stack + StackTopOff cfg then Inl BugCheck
             else (case Tasks s (StackTask st) of
                     None \<Rightarrow> Inl BadPointer
                   | Some T \<Rightarrow>
                       if Magic T \<noteq> TaskMagic cfg then Inl BugCheck
                       else Inr (StackTask st)))"

section \<open>Clients of the object table\<close>

text \<open>
  A client's use of the object table is a sequence of calls of its three operations;
  the results of the calls are dropped, the state is threaded through, and the first
  failing call ends the run.
\<close>

datatype TableCall = CallInsert addr | CallRemove ObjectId | CallLookup ObjectId

fun table_call :: "Config \<Rightarrow> TableCall \<Rightarrow> Kernel \<Rightarrow> error + Kernel" where
  "table_call cfg (CallInsert ob) s = bindE (ObjectTable_Insert cfg ob s) (\<lambda>(objectId, s'). Inr s')"
| "table_call cfg (CallRemove objectId) s = ObjectTable_Remove objectId s"
| "table_call cfg (CallLookup objectId) s = bindE (ObjectTable_Lookup objectId s) (\<lambda>(r, s'). Inr s')"

fun table_calls :: "Config \<Rightarrow> TableCall list \<Rightarrow> Kernel \<Rightarrow> error + Kernel" where
  "table_calls cfg [] s = Inr s"
| "table_calls cfg (c # cs) s = bindE (table_call cfg c s) (table_calls cfg cs)"

text \<open>
  Reference-count discipline of the table: every object stored in a slot is allocated
  and its reference count covers the slots that hold it.
\<close>

definition table_refs_ok :: "Kernel \<Rightarrow> bool" where
  "table_refs_ok s \<longleftrightarrow>
     list_all (\<lambda>x. case x of
                     None \<Rightarrow> True
                   | Some a \<Rightarrow> (case Tasks s a of
                                 None \<Rightarrow> False
                               | Some T \<Rightarrow> int (count_list (ObjectArray s) x) \<le> RefCounter T))
       (ObjectArray s)"

text \<open>
  The caller holds a reference of its own on \<open>ob\<close>: the object is allocated and its
  reference count exceeds the number of slots that hold it.
\<close>

definition owns_reference :: "addr \<Rightarrow> Kernel \<Rightarrow> bool" where
  "owns_reference ob s \<longleftrightarrow>
     (case Tasks s ob of
        None \<Rightarrow> False
      | Some T \<Rightarrow> int (count_list (ObjectArray s) (Some ob)) < RefCounter T)"

text \<open>The invariant between \<^verbatim>\<open>Insert\<close> and the \<^verbatim>\<open>Remove\<close> of the same id.\<close>

definition table_inv :: "addr \<Rightarrow> ObjectId \<Rightarrow> Kernel \<Rightarrow> bool" where
  "table_inv ob objectId s \<longleftrightarrow>
     table_refs_ok s \<and> owns_reference ob s \<and>
     objectId < length (ObjectArray s) \<and> ObjectArray s ! objectId = Some ob"

section \<open>A concrete configuration\<close>

text \<open>
  A small instance used to run the model: eight-page stacks, a table of two object
  slots, four hash buckets and two running CPUs.
\<close>

definition cfg0 :: Config where
  "cfg0 =
     \<lparr> InvalidObjectId = 18446744073709551615, HashPtr = (\<lambda>p. unat (drop_bit 4 p)),
       StackSize = 0x8000, PageSize = 0x1000, StackBottomOff = 0x18, StackTopOff = 0x7FF0,
       StackMagic1 = 0xBCDEBCDE, StackMagic2 = 0xCBDECBDE, TaskMagic = 0xCBDACBDA,
       ContextSize = 0x80, RdiOff = 0x48, RflagsOff = 0x78, ExecAddr = 0x100000 \<rparr>"

definition kernel0 :: Kernel where
  "kernel0 =
     \<lparr> Tasks = Map.empty, Stacks = Map.empty, Mem = (\<lambda>a. 0), FreedStacks = [],
       ObjectArray = [None, None], TaskList = [[], [], [], []], RunningCpus = 3,
       CpuArray = [\<lparr>QueueTasks = [], SwitchContextCounter = 0\<rparr>,
                   \<lparr>QueueTasks = [], SwitchContextCounter = 0\<rparr>] \<rparr>"

definition task0 :: addr where
  "task0 = 0x2000"

definition stack0 :: addr where
  "stack0 = 0x10000"

text \<open>The kernel after \<^verbatim>\<open>new Task()\<close> at \<open>task0\<close>.\<close>

definition kernel1 :: Kernel where
  "kernel1 = new_Task cfg0 task0 kernel0"

text \<open>The same kernel with both object slots taken.\<close>

definition kernel_full :: Kernel where
  "kernel_full = kernel1\<lparr>ObjectArray := [Some 0x3000, Some 0x3010]\<rparr>"

text \<open>A task that owns an allocated stack and has never been registered.\<close>

definition kernel_stk :: Kernel where
  "kernel_stk =
     setTask task0 ((Task_new cfg0)\<lparr>Stack := Some stack0\<rparr>) (new_Stack cfg0 stack0 task0 kernel0)"


text \<open>Two running CPUs whose queues have switched five and three times.\<close>

definition kernel_load :: Kernel where
  "kernel_load =
     kernel1\<lparr>CpuArray := [\<lparr>QueueTasks = [], SwitchContextCounter = 5\<rparr>,
                          \<lparr>QueueTasks = [], SwitchContextCounter = 3\<rparr>]\<rparr>"

text \<open>The address of a task function.\<close>

definition func0 :: addr where
  "func0 = 0x5000"

text \<open>A new task pinned to CPU 2 by \<^verbatim>\<open>SetCpuAffinity(1 << 2)\<close>, on a machine whose running CPUs are 0 and 1.\<close>

definition kernel_pinned :: Kernel where
  "kernel_pinned = setTask task0 ((Task_new cfg0)\<lparr>CpuAffinity := 4\<rparr>) kernel0"

text \<open>The kernel after \<^verbatim>\<open>Start\<close> of the new task \<open>task0\<close> on the stack \<open>stack0\<close>.\<close>

definition kernel_started :: Kernel where
  "kernel_started =
     (case Start cfg0 (Some stack0) (Some func0) None task0 kernel1 of
        Inr (ok, s) \<Rightarrow> s
      | Inl e \<Rightarrow> kernel1)"

text \<open>The kernel after \<^verbatim>\<open>TaskTable::Insert\<close> of the new task \<open>task0\<close>.\<close>

definition kernel_registered :: Kernel where
  "kernel_registered =
     kernel1\<lparr>Tasks := (Tasks kernel1)(task0 \<mapsto> (Task_new cfg0)\<lparr>Pid := 0, RefCounter := 3\<rparr>),
             ObjectArray := [Some task0, None],
             TaskList := [[task0], [], [], []]\<rparr>"

text \<open>The kernel after the following \<^verbatim>\<open>TaskTable::Remove\<close> of \<open>task0\<close>.\<close>

definition kernel_removed :: Kernel where
  "kernel_removed = kernel1\<lparr>Tasks := (Tasks kernel1)(task0 \<mapsto> (Task_new cfg0)\<lparr>Pid := 0\<rparr>)\<rparr>"

text \<open>The kernel after \<^verbatim>\<open>ObjectTable::Insert\<close> of \<open>task0\<close>, and after one more lookup of its id.\<close>

definition kernel_slot0 :: Kernel where
  "kernel_slot0 =
     kernel1\<lparr>Tasks := (Tasks kernel1)(task0 \<mapsto> (Task_new cfg0)\<lparr>RefCounter := 2\<rparr>),
             ObjectArray := [Some task0, None]\<rparr>"

definition kernel_slot0_looked :: Kernel where
  "kernel_slot0_looked = setTask task0 ((Task_new cfg0)\<lparr>RefCounter := 3\<rparr>) kernel_slot0"

section \<open>Basic facts\<close>

lemma bindE_Inr [simp]: "bindE (Inr x) f = f x"
  by (simp add: bindE_def)

lemma bindE_Inl [simp]: "bindE (Inl e) f = Inl e"
  by (simp add: bindE_def)

lemma bindE_eq_Inr: "bindE m f = Inr y \<longleftrightarrow> (\<exists>x. m = Inr x \<and> f x = Inr y)"
  by (cases m) simp_all

lemma InsertScan_full:
  "\<forall>i < length arr. arr ! i \<noteq> None \<Longrightarrow> InsertScan arr k = None"
proof (induction arr k rule: InsertScan.induct)
  case (1 arr objectId)
  show ?case
  proof (cases "objectId < length arr")
    case True
    with "1.prems" have occ: "arr ! objectId \<noteq> None" by simp
    from "1.IH" [OF True occ "1.prems"] True occ show ?thesis
      by (subst InsertScan.simps) simp
  next
    case False
    then show ?thesis by (subst InsertScan.simps) simp
  qed
qed

lemma Get_then_Put:
  assumes "Tasks s t = Some T" and "0 < RefCounter T"
  shows "bindE (Task_Get t s) (Task_Put t) = Inr s"
proof -
  have "Task_Get t s = Inr (setTask t (T\<lparr>RefCounter := RefCounter T + 1\<rparr>) s)"
    using assms by (simp add: Task_Get_def)
  moreover have "Task_Put t (setTask t (T\<lparr>RefCounter := RefCounter T + 1\<rparr>) s) = Inr s"
    using assms by (simp add: Task_Put_def setTask_def Let_def fun_upd_idem)
  ultimately show ?thesis by simp
qed

section \<open>Object table: insertion into a full table\<close>

lemma ObjectTable_Insert_full:
  assumes "\<forall>i < length (ObjectArray s). ObjectArray s ! i \<noteq> None"
    and "Tasks s object = Some T" and "0 < RefCounter T"
  shows "ObjectTable_Insert cfg object s = Inr (InvalidObjectId cfg, s)"
proof -
  let ?s1 = "setTask object (T\<lparr>RefCounter := RefCounter T + 1\<rparr>) s"
  have g: "Task_Get object s = Inr ?s1"
    using assms(2,3) by (simp add: Task_Get_def)
  have arr: "ObjectArray ?s1 = ObjectArray s"
    by (simp add: setTask_def)
  have scan: "InsertScan (ObjectArray ?s1) 0 = None"
    unfolding arr by (rule InsertScan_full [OF assms(1)])
  have p: "Task_Put object ?s1 = Inr s"
    using Get_then_Put [OF assms(2,3)] g by simp
  show ?thesis
    by (simp add: ObjectTable_Insert_def g scan p)
qed

text \<open>
  C6. When every slot of the object table is occupied, \<^verbatim>\<open>ObjectTable::Insert\<close> of a live
  object (reference count positive, the precondition of \<^verbatim>\<open>Get\<close>) returns
  \<^verbatim>\<open>InvalidObjectId\<close> and leaves the whole kernel state as it was: the slots are unchanged
  and the object's reference count is the same after the call as before it.
\<close>

theorem C6_Insert_full_no_side_effects:
  assumes "\<forall>i < length (ObjectArray s). ObjectArray s ! i \<noteq> None"
    and "Tasks s object = Some T" and "0 < RefCounter T"
  shows "ObjectTable_Insert cfg object s = Inr (InvalidObjectId cfg, s)"
  using assms by (rule ObjectTable_Insert_full)

theorem C6_Insert_full_witness:
  "None \<notin> set (ObjectArray kernel_full)
   \<and> Tasks kernel_full task0 = Some (Task_new cfg0) \<and> 0 < RefCounter (Task_new cfg0)
   \<and> ObjectTable_Insert cfg0 task0 kernel_full = Inr (InvalidObjectId cfg0, kernel_full)"
proof -
  have h1: "\<forall>i < length (ObjectArray kernel_full). ObjectArray kernel_full ! i \<noteq> None"
    by (simp add: kernel_full_def less_Suc_eq)
  have h2: "Tasks kernel_full task0 = Some (Task_new cfg0)"
    by (simp add: kernel_full_def kernel1_def new_Task_def)
  have h3: "0 < RefCounter (Task_new cfg0)"
    by (simp add: Task_new_def)
  have h0: "None \<notin> set (ObjectArray kernel_full)"
    by (simp add: kernel_full_def)
  from C6_Insert_full_no_side_effects [OF h1 h2 h3, of cfg0] h0 h2 h3 show ?thesis by simp
qed

section \<open>Release of a task\<close>





section \<open>Placement of a task\<close>

lemma SelectLoop_inv_skip:
  "SelectLoop_inv m cur cpus i acc \<Longrightarrow> \<not> (bit m i \<and> Some i \<noteq> cur) \<Longrightarrow> SelectLoop_inv m cur cpus (Suc i) acc"
  by (auto simp: SelectLoop_inv_def less_Suc_eq split: option.splits)

lemma SelectLoop_inv_first:
  "SelectLoop_inv m cur cpus i None \<Longrightarrow> bit m i \<Longrightarrow> Some i \<noteq> cur \<Longrightarrow> SelectLoop_inv m cur cpus (Suc i) (Some i)"
  by (auto simp: SelectLoop_inv_def less_Suc_eq)

lemma SelectLoop_inv_better:
  "SelectLoop_inv m cur cpus i (Some q) \<Longrightarrow> bit m i \<Longrightarrow> Some i \<noteq> cur \<Longrightarrow>
   SwitchContextCounter (cpus ! q) > SwitchContextCounter (cpus ! i) \<Longrightarrow>
   SelectLoop_inv m cur cpus (Suc i) (Some i)"
  by (fastforce simp: SelectLoop_inv_def less_Suc_eq)

lemma SelectLoop_inv_keep:
  "SelectLoop_inv m cur cpus i (Some q) \<Longrightarrow> bit m i \<Longrightarrow> Some i \<noteq> cur \<Longrightarrow>
   \<not> SwitchContextCounter (cpus ! q) > SwitchContextCounter (cpus ! i) \<Longrightarrow>
   SelectLoop_inv m cur cpus (Suc i) (Some q)"
  by (fastforce simp: SelectLoop_inv_def less_Suc_eq)

lemma SelectLoop_correct:
  assumes "\<forall>k<64. bit m k \<longrightarrow> k < length cpus"
    and "SelectLoop_inv m cur cpus i acc" and "i \<le> 64"
  shows "\<exists>r. SelectLoop m cur cpus i acc = Inr r \<and> SelectLoop_inv m cur cpus 64 r"
  using assms
proof (induction m cur cpus i acc rule: SelectLoop.induct)
  case (1 m cur cpus i acc)
  show ?case
  proof (cases "i < 64")
    case False
    with "1.prems" have "i = 64" by simp
    with "1.prems" show ?thesis by (subst SelectLoop.simps) simp
  next
    case lt: True
    then have le: "i + 1 \<le> 64" by simp
    show ?thesis
    proof (cases "bit m i")
      case nb: False
      then have z: "\<not> m AND push_bit i 1 \<noteq> 0"
        by (simp add: bit_iff_and_push_bit_not_eq_0)
      have inv: "SelectLoop_inv m cur cpus (i + 1) acc"
        using SelectLoop_inv_skip [OF "1.prems"(2)] nb by simp
      from "1.IH"(5) [OF lt z "1.prems"(1) inv le] lt z show ?thesis
        by (subst SelectLoop.simps) simp
    next
      case b: True
      then have nz: "m AND push_bit i 1 \<noteq> 0"
        by (simp add: bit_iff_and_push_bit_not_eq_0)
      from b lt "1.prems"(1) have len: "i < length cpus" by simp
      show ?thesis
      proof (cases "Some i = cur")
        case c: True
        have inv: "SelectLoop_inv m cur cpus (i + 1) acc"
          using SelectLoop_inv_skip [OF "1.prems"(2)] c by simp
        from "1.IH"(1) [OF lt nz len c "1.prems"(1) inv le] lt nz len c show ?thesis
          by (subst SelectLoop.simps) simp
      next
        case nc: False
        show ?thesis
        proof (cases acc)
          case None
          have inv: "SelectLoop_inv m cur cpus (i + 1) (Some i)"
            using SelectLoop_inv_first [of m cur cpus i] "1.prems"(2) b nc None by simp
          from "1.IH"(2) [OF lt nz len nc None "1.prems"(1) inv le] lt nz len nc None
          show ?thesis by (subst SelectLoop.simps) simp
        next
          case (Some q)
          show ?thesis
          proof (cases "SwitchContextCounter (cpus ! q) > SwitchContextCounter (cpus ! i)")
            case g: True
            have inv: "SelectLoop_inv m cur cpus (i + 1) (Some i)"
              using SelectLoop_inv_better [of m cur cpus i q] "1.prems"(2) b nc Some g by simp
            from "1.IH"(3) [OF lt nz len nc Some g "1.prems"(1) inv le] lt nz len nc Some g
            show ?thesis by (subst SelectLoop.simps) simp
          next
            case ng: False
            have inv: "SelectLoop_inv m cur cpus (i + 1) acc"
              using SelectLoop_inv_keep [of m cur cpus i q] "1.prems"(2) b nc Some ng by simp
            from "1.IH"(4) [OF lt nz len nc Some ng "1.prems"(1) inv le] lt nz len nc Some ng
            show ?thesis by (subst SelectLoop.simps) simp
          qed
        qed
      qed
    qed
  qed
qed

text \<open>
  C5. \<^verbatim>\<open>SelectNextTaskQueue\<close> considers exactly the CPUs whose bit is set in
  \<^verbatim>\<open>GetRunningCpus() & CpuAffinity\<close> and whose queue is not the task's current queue. If
  there is none it returns null; otherwise it returns, among those, a queue with the
  lowest context-switch counter, and of the queues with that counter the one with the
  lowest CPU index. (The running mask names existing CPUs only.)
\<close>

theorem C5_SelectNextTaskQueue_least_loaded:
  assumes "Tasks s task = Some T"
    and "\<forall>k. bit (RunningCpus s) k \<longrightarrow> k < length (CpuArray s)"
  shows "\<exists>r. SelectNextTaskQueue task s = Inr r \<and>
           (case r of
              None \<Rightarrow> {i. bit (RunningCpus s AND CpuAffinity T) i \<and> TaskQueue T \<noteq> Some i} = {}
            | Some j \<Rightarrow>
                j \<in> {i. bit (RunningCpus s AND CpuAffinity T) i \<and> TaskQueue T \<noteq> Some i} \<and>
                (\<forall>k \<in> {i. bit (RunningCpus s AND CpuAffinity T) i \<and> TaskQueue T \<noteq> Some i}.
                   SwitchContextCounter (CpuArray s ! j) \<le> SwitchContextCounter (CpuArray s ! k) \<and>
                   (SwitchContextCounter (CpuArray s ! k) = SwitchContextCounter (CpuArray s ! j)
                      \<longrightarrow> j \<le> k)))"
proof -
  let ?m = "RunningCpus s AND CpuAffinity T"
  have lt64: "k < 64" if "bit ?m k" for k
    using bit_imp_le_length [OF that] by simp
  show ?thesis
  proof (cases "?m = 0")
    case True
    then have "SelectNextTaskQueue task s = Inr None"
      using assms(1) by (simp add: SelectNextTaskQueue_def)
    moreover have "\<not> bit ?m i" for i
      using True by simp
    ultimately show ?thesis by simp
  next
    case False
    have bound: "\<forall>k<64. bit ?m k \<longrightarrow> k < length (CpuArray s)"
      using assms(2) by (simp add: bit_and_iff)
    have init: "SelectLoop_inv ?m (TaskQueue T) (CpuArray s) 0 None"
      by (simp add: SelectLoop_inv_def)
    from SelectLoop_correct [OF bound init]
    obtain r where run: "SelectLoop ?m (TaskQueue T) (CpuArray s) 0 None = Inr r"
      and inv: "SelectLoop_inv ?m (TaskQueue T) (CpuArray s) 64 r"
      by auto
    from run False assms(1) have res: "SelectNextTaskQueue task s = Inr r"
      by (simp add: SelectNextTaskQueue_def)
    from inv lt64 have "case r of
        None \<Rightarrow> {i. bit ?m i \<and> TaskQueue T \<noteq> Some i} = {}
      | Some j \<Rightarrow>
          j \<in> {i. bit ?m i \<and> TaskQueue T \<noteq> Some i} \<and>
          (\<forall>k \<in> {i. bit ?m i \<and> TaskQueue T \<noteq> Some i}.
             SwitchContextCounter (CpuArray s ! j) \<le> SwitchContextCounter (CpuArray s ! k) \<and>
             (SwitchContextCounter (CpuArray s ! k) = SwitchContextCounter (CpuArray s ! j)
                \<longrightarrow> j \<le> k))"
      by (cases r) (auto simp: SelectLoop_inv_def)
    with res show ?thesis by blast
  qed
qed

lemma SelectNextTaskQueue_kernel_load: "SelectNextTaskQueue task0 kernel_load = Inr (Some 1)"
  by (simp add: SelectNextTaskQueue_def kernel_load_def kernel1_def new_Task_def Task_new_def
      kernel0_def SelectLoop.simps)

lemma SelectNextTaskQueue_kernel1: "SelectNextTaskQueue task0 kernel1 = Inr (Some 0)"
  by (simp add: SelectNextTaskQueue_def kernel1_def new_Task_def Task_new_def
      kernel0_def SelectLoop.simps)

lemma bit_3_word: "bit (3 :: 64 word) k \<longleftrightarrow> k < 2"
proof -
  have e: "(3 :: 64 word) = mask 2" by (simp add: mask_eq_exp_minus_1)
  have "bit (mask 2 :: 64 word) k \<longleftrightarrow> k < 2"
    unfolding bit_mask_iff by (auto simp: possible_bit_word)
  then show ?thesis by (simp only: e)
qed

theorem C5_SelectNextTaskQueue_witness:
  "Tasks kernel_load task0 = Some (Task_new cfg0)
   \<and> RunningCpus kernel_load = 3 \<and> length (CpuArray kernel_load) = 2
   \<and> SelectNextTaskQueue task0 kernel_load = Inr (Some 1)
   \<and> bit (RunningCpus kernel_load AND CpuAffinity (Task_new cfg0)) 0
   \<and> SwitchContextCounter (CpuArray kernel_load ! 1) \<le> SwitchContextCounter (CpuArray kernel_load ! 0)"
proof -
  have h1: "Tasks kernel_load task0 = Some (Task_new cfg0)"
    by (simp add: kernel_load_def kernel1_def new_Task_def)
  have r: "RunningCpus kernel_load = 3" and l: "length (CpuArray kernel_load) = 2"
    by (simp_all add: kernel_load_def kernel1_def new_Task_def kernel0_def)
  have h2: "\<forall>k. bit (RunningCpus kernel_load) k \<longrightarrow> k < length (CpuArray kernel_load)"
    unfolding r l using bit_3_word by blast
  have ev: "SelectNextTaskQueue task0 kernel_load = Inr (Some 1)"
    by (rule SelectNextTaskQueue_kernel_load)
  have b0: "bit (RunningCpus kernel_load AND CpuAffinity (Task_new cfg0)) 0"
    and q0: "TaskQueue (Task_new cfg0) \<noteq> Some 0"
    by (simp_all add: r Task_new_def bit_and_iff bit_3_word)
  from C5_SelectNextTaskQueue_least_loaded [OF h1 h2] ev b0 q0
  have "SwitchContextCounter (CpuArray kernel_load ! 1) \<le> SwitchContextCounter (CpuArray kernel_load ! 0)"
    by auto
  with ev h1 r l b0 show ?thesis by simp
qed

section \<open>Symbolic execution of the table operations and of PrepareStart\<close>

lemma InsertScan_Some:
  "InsertScan arr k = Some i \<Longrightarrow>
     k \<le> i \<and> i < length arr \<and> arr ! i = None \<and> (\<forall>j. k \<le> j \<and> j < i \<longrightarrow> arr ! j \<noteq> None)"
proof (induction arr k rule: InsertScan.induct)
  case (1 arr objectId)
  show ?case
  proof (cases "objectId < length arr \<and> arr ! objectId \<noteq> None")
    case True
    with "1.prems" have "InsertScan arr (objectId + 1) = Some i"
      by (subst (asm) InsertScan.simps) simp
    with "1.IH" True have ih: "objectId + 1 \<le> i \<and> i < length arr \<and> arr ! i = None \<and>
        (\<forall>j. objectId + 1 \<le> j \<and> j < i \<longrightarrow> arr ! j \<noteq> None)"
      by simp
    have "arr ! j \<noteq> None" if "objectId \<le> j" "j < i" for j
      using that ih True by (cases "j = objectId") auto
    with ih show ?thesis by auto
  next
    case False
    with "1.prems" show ?thesis
      by (subst (asm) InsertScan.simps) (auto split: if_splits)
  qed
qed

lemma InsertScan_None:
  "InsertScan arr k = None \<Longrightarrow> j < length arr \<Longrightarrow> k \<le> j \<Longrightarrow> arr ! j \<noteq> None"
proof (induction arr k rule: InsertScan.induct)
  case (1 arr objectId)
  from "1.prems"(1) have occ: "objectId < length arr \<longrightarrow> arr ! objectId \<noteq> None"
    by (subst (asm) InsertScan.simps) (auto split: if_splits)
  show ?case
  proof (cases "j = objectId")
    case True
    with occ "1.prems" show ?thesis by simp
  next
    case False
    with "1.prems" have lt: "objectId < length arr" and le: "objectId + 1 \<le> j" by simp_all
    from "1.prems"(1) lt occ have "InsertScan arr (objectId + 1) = None"
      by (subst (asm) InsertScan.simps) simp
    from "1.IH" [OF lt _ this "1.prems"(2) le] occ lt show ?thesis by simp
  qed
qed

lemma InsertScan_free:
  assumes "i < length arr" and "arr ! i = None"
  shows "\<exists>j. InsertScan arr 0 = Some j"
proof (cases "InsertScan arr 0")
  case None
  from InsertScan_None [OF None assms(1)] assms(2) show ?thesis by simp
qed simp

lemma Task_Get_Inr:
  "Task_Get t s = Inr s' \<longleftrightarrow>
     (\<exists>T. Tasks s t = Some T \<and> 0 < RefCounter T \<and>
          s' = setTask t (T\<lparr>RefCounter := RefCounter T + 1\<rparr>) s)"
  by (auto simp: Task_Get_def split: option.splits)

lemma Task_Put_keep:
  "Tasks s t = Some T \<Longrightarrow> 1 < RefCounter T \<Longrightarrow>
     Task_Put t s = Inr (setTask t (T\<lparr>RefCounter := RefCounter T - 1\<rparr>) s)"
  by (simp add: Task_Put_def Let_def)

lemma ObjectTable_Insert_Inr:
  assumes "ObjectTable_Insert cfg ob s = Inr (objectId, s')"
  shows "\<exists>T. Tasks s ob = Some T \<and> 0 < RefCounter T \<and>
           ((InsertScan (ObjectArray s) 0 = Some objectId \<and>
             s' = (setTask ob (T\<lparr>RefCounter := RefCounter T + 1\<rparr>) s)
                    \<lparr>ObjectArray := (ObjectArray s)[objectId := Some ob]\<rparr>)
            \<or> (InsertScan (ObjectArray s) 0 = None \<and> objectId = InvalidObjectId cfg \<and> s' = s))"
proof -
  from assms obtain s1 where g: "Task_Get ob s = Inr s1"
    and rest: "(case InsertScan (ObjectArray s1) 0 of
         Some i \<Rightarrow> Inr (i, s1\<lparr>ObjectArray := (ObjectArray s1)[i := Some ob]\<rparr>)
       | None \<Rightarrow> bindE (Task_Put ob s1) (\<lambda>s2. Inr (InvalidObjectId cfg, s2))) = Inr (objectId, s')"
    by (auto simp: ObjectTable_Insert_def bindE_eq_Inr)
  from g obtain T where T: "Tasks s ob = Some T" "0 < RefCounter T"
    and s1: "s1 = setTask ob (T\<lparr>RefCounter := RefCounter T + 1\<rparr>) s"
    by (auto simp: Task_Get_Inr)
  have arr: "ObjectArray s1 = ObjectArray s" by (simp add: s1 setTask_def)
  have p: "Task_Put ob s1 = Inr s"
    using Get_then_Put [OF T] g by simp
  show ?thesis
  proof (cases "InsertScan (ObjectArray s) 0")
    case None
    with rest arr p T show ?thesis by auto
  next
    case (Some i)
    with rest arr s1 T show ?thesis by auto
  qed
qed

lemma TaskTable_Insert_True:
  assumes "TaskTable_Insert cfg task s = Inr (True, s')"
  shows "\<exists>T pid. Tasks s task = Some T \<and> 0 < RefCounter T \<and>
           InsertScan (ObjectArray s) 0 = Some pid \<and> pid \<noteq> InvalidObjectId cfg \<and>
           task \<notin> set (concat (TaskList s)) \<and>
           s' = s\<lparr>Tasks := (Tasks s)(task \<mapsto> T\<lparr>Pid := pid, RefCounter := RefCounter T + 2\<rparr>),
                  ObjectArray := (ObjectArray s)[pid := Some task],
                  TaskList := (TaskList s)[HashPtr cfg task mod length (TaskList s) :=
                     TaskList s ! (HashPtr cfg task mod length (TaskList s)) @ [task]]\<rparr>"
proof -
  from assms obtain pid s1 where ins: "ObjectTable_Insert cfg task s = Inr (pid, s1)"
    and rest: "(if pid = InvalidObjectId cfg then Inr (False, s1)
       else (case Tasks s1 task of
               None \<Rightarrow> Inl BadPointer
             | Some T \<Rightarrow>
                 bindE (Task_Get task (setTask task (T\<lparr>Pid := pid\<rparr>) s1)) (\<lambda>s2.
                   let i = HashPtr cfg task mod length (TaskList s2)
                   in if \<not> TableListEntry_IsEmpty task s2 then Inl BugCheck
                      else Inr (True, s2\<lparr>TaskList := (TaskList s2)[i := TaskList s2 ! i @ [task]]\<rparr>)))) = Inr (True, s')"
    by (auto simp: TaskTable_Insert_def bindE_eq_Inr)
  from rest have valid: "pid \<noteq> InvalidObjectId cfg" by (auto split: if_splits)
  from ObjectTable_Insert_Inr [OF ins] valid obtain T where T: "Tasks s task = Some T" "0 < RefCounter T"
    and scan: "InsertScan (ObjectArray s) 0 = Some pid"
    and s1: "s1 = (setTask task (T\<lparr>RefCounter := RefCounter T + 1\<rparr>) s)
                    \<lparr>ObjectArray := (ObjectArray s)[pid := Some task]\<rparr>"
    by auto
  from rest valid T have emp: "task \<notin> set (concat (TaskList s))"
    and s': "s' = s\<lparr>Tasks := (Tasks s)(task \<mapsto> T\<lparr>Pid := pid, RefCounter := RefCounter T + 2\<rparr>),
                  ObjectArray := (ObjectArray s)[pid := Some task],
                  TaskList := (TaskList s)[HashPtr cfg task mod length (TaskList s) :=
                     TaskList s ! (HashPtr cfg task mod length (TaskList s)) @ [task]]\<rparr>"
    unfolding s1
    by (auto simp: setTask_def Task_Get_def Let_def TableListEntry_IsEmpty_def
        split: if_splits intro!: Kernel.equality)
  with T scan valid show ?thesis by blast
qed

lemma TaskTable_Insert_False:
  assumes "TaskTable_Insert cfg task s = Inr (False, s')"
    and "length (ObjectArray s) \<le> InvalidObjectId cfg"
  shows "s' = s \<and> InsertScan (ObjectArray s) 0 = None"
proof -
  from assms obtain pid s1 where ins: "ObjectTable_Insert cfg task s = Inr (pid, s1)"
    and rest: "(if pid = InvalidObjectId cfg then Inr (False, s1)
       else (case Tasks s1 task of
               None \<Rightarrow> Inl BadPointer
             | Some T \<Rightarrow>
                 bindE (Task_Get task (setTask task (T\<lparr>Pid := pid\<rparr>) s1)) (\<lambda>s2.
                   let i = HashPtr cfg task mod length (TaskList s2)
                   in if \<not> TableListEntry_IsEmpty task s2 then Inl BugCheck
                      else Inr (True, s2\<lparr>TaskList := (TaskList s2)[i := TaskList s2 ! i @ [task]]\<rparr>)))) = Inr (False, s')"
    by (auto simp: TaskTable_Insert_def bindE_eq_Inr)
  from rest have inv: "pid = InvalidObjectId cfg" and s': "s' = s1"
    by (auto simp: bindE_eq_Inr Let_def split: if_splits option.splits)
  from ObjectTable_Insert_Inr [OF ins] obtain T where
    alt: "(InsertScan (ObjectArray s) 0 = Some pid) \<or> (InsertScan (ObjectArray s) 0 = None \<and> s1 = s)"
    by auto
  from alt show ?thesis
  proof
    assume "InsertScan (ObjectArray s) 0 = Some pid"
    from InsertScan_Some [OF this] inv assms(2) show ?thesis by simp
  next
    assume "InsertScan (ObjectArray s) 0 = None \<and> s1 = s"
    with s' show ?thesis by simp
  qed
qed

lemma TaskTable_Insert_full:
  assumes "\<forall>i < length (ObjectArray s). ObjectArray s ! i \<noteq> None"
    and "Tasks s task = Some T" and "0 < RefCounter T"
  shows "TaskTable_Insert cfg task s = Inr (False, s)"
  by (simp add: TaskTable_Insert_def ObjectTable_Insert_full [OF assms])

lemma PrepareStart_nomem:
  assumes "Tasks s task = Some T" and "Stack T = None" and "Function T = None"
  shows "PrepareStart cfg None func ctx task s = Inr (False, s)"
  using assms by (simp add: PrepareStart_def)

lemma PrepareStart_table_full:
  assumes "Tasks s task = Some T" and "Stack T = None" and "Function T = None"
    and "0 < RefCounter T"
    and "\<forall>i < length (ObjectArray s). ObjectArray s ! i \<noteq> None"
  shows "PrepareStart cfg (Some k) func ctx task s =
           Inr (False, s\<lparr>Stacks := (Stacks s)(k := None), FreedStacks := FreedStacks s @ [k]\<rparr>)"
proof -
  let ?s0 = "setTask task (T\<lparr>Stack := Some k\<rparr>) (new_Stack cfg k task s)"
  have full: "\<forall>i < length (ObjectArray ?s0). ObjectArray ?s0 ! i \<noteq> None"
    using assms(5) by (simp add: setTask_def new_Stack_def)
  have t0: "Tasks ?s0 task = Some (T\<lparr>Stack := Some k\<rparr>)"
    by (simp add: setTask_def)
  have rc: "0 < RefCounter (T\<lparr>Stack := Some k\<rparr>)"
    using assms(4) by simp
  have ins: "TaskTable_Insert cfg task ?s0 = Inr (False, ?s0)"
    by (rule TaskTable_Insert_full [OF full t0 rc])
  have del: "delete_Stack k ?s0 =
      Inr (?s0\<lparr>Stacks := (Stacks ?s0)(k := None), FreedStacks := FreedStacks ?s0 @ [k]\<rparr>)"
    by (simp add: delete_Stack_def setTask_def new_Stack_def)
  have TT: "T\<lparr>Stack := None\<rparr> = T"
    using assms(2) by (intro Task.equality) simp_all
  have fin: "setTask task (T\<lparr>Stack := None\<rparr>)
        (?s0\<lparr>Stacks := (Stacks ?s0)(k := None), FreedStacks := FreedStacks ?s0 @ [k]\<rparr>) =
      s\<lparr>Stacks := (Stacks s)(k := None), FreedStacks := FreedStacks s @ [k]\<rparr>"
    unfolding TT using assms(1)
    by (intro Kernel.equality) (auto simp: setTask_def new_Stack_def)
  show ?thesis
    using assms(1,2,3) by (simp add: PrepareStart_def ins t0 del fin)
qed

lemma PrepareStart_True:
  assumes "PrepareStart cfg alloc func ctx task s = Inr (True, s')"
  shows "\<exists>k T pid. alloc = Some k \<and> Tasks s task = Some T \<and> Stack T = None \<and> Function T = None \<and>
           0 < RefCounter T \<and> InsertScan (ObjectArray s) 0 = Some pid \<and> pid \<noteq> InvalidObjectId cfg \<and>
           task \<notin> set (concat (TaskList s)) \<and>
           s' = s\<lparr>Tasks := (Tasks s)(task \<mapsto> T\<lparr>Pid := pid, Stack := Some k, Function := func,
                                                   Ctx := ctx, RefCounter := RefCounter T + 2\<rparr>),
                  Stacks := (Stacks s)(k \<mapsto> \<lparr>Magic1 = StackMagic1 cfg, StackTask = task,
                                                Magic2 = StackMagic2 cfg\<rparr>),
                  ObjectArray := (ObjectArray s)[pid := Some task],
                  TaskList := (TaskList s)[HashPtr cfg task mod length (TaskList s) :=
                     TaskList s ! (HashPtr cfg task mod length (TaskList s)) @ [task]]\<rparr>"
proof -
  from assms obtain T where T: "Tasks s task = Some T" "Stack T = None" "Function T = None"
    by (auto simp: PrepareStart_def split: option.splits if_splits)
  from assms T obtain k where k: "alloc = Some k"
    by (cases alloc) (auto simp: PrepareStart_def)
  let ?s0 = "setTask task (T\<lparr>Stack := Some k\<rparr>) (new_Stack cfg k task s)"
  from assms T k obtain ok s1 where ins: "TaskTable_Insert cfg task ?s0 = Inr (ok, s1)"
    and rest: "(case Tasks s1 task of
                  None \<Rightarrow> Inl BadPointer
                | Some T1 \<Rightarrow>
                    if \<not> ok
                    then bindE (delete_Stack k s1)
                           (\<lambda>s2. Inr (False, setTask task (T1\<lparr>Stack := None\<rparr>) s2))
                    else Inr (True, setTask task (T1\<lparr>Function := func, Ctx := ctx\<rparr>) s1)) = Inr (True, s')"
    by (auto simp: PrepareStart_def bindE_eq_Inr)
  from rest have ok: "ok"
    by (auto simp: bindE_eq_Inr split: option.splits if_splits)
  from TaskTable_Insert_True [OF ins [unfolded ok [THEN eqTrueI]]]
  obtain pid where rc: "0 < RefCounter T"
    and scan: "InsertScan (ObjectArray s) 0 = Some pid" and valid: "pid \<noteq> InvalidObjectId cfg"
    and emp: "task \<notin> set (concat (TaskList s))"
    and s1: "s1 = ?s0\<lparr>Tasks := (Tasks ?s0)(task \<mapsto> T\<lparr>Stack := Some k, Pid := pid, RefCounter := RefCounter T + 2\<rparr>),
                  ObjectArray := (ObjectArray ?s0)[pid := Some task],
                  TaskList := (TaskList ?s0)[HashPtr cfg task mod length (TaskList ?s0) :=
                     TaskList ?s0 ! (HashPtr cfg task mod length (TaskList ?s0)) @ [task]]\<rparr>"
    by (auto simp: setTask_def new_Stack_def)
  from rest ok have s': "s' = s\<lparr>Tasks := (Tasks s)(task \<mapsto> T\<lparr>Pid := pid, Stack := Some k, Function := func,
                                                   Ctx := ctx, RefCounter := RefCounter T + 2\<rparr>),
                  Stacks := (Stacks s)(k \<mapsto> \<lparr>Magic1 = StackMagic1 cfg, StackTask = task,
                                                Magic2 = StackMagic2 cfg\<rparr>),
                  ObjectArray := (ObjectArray s)[pid := Some task],
                  TaskList := (TaskList s)[HashPtr cfg task mod length (TaskList s) :=
                     TaskList s ! (HashPtr cfg task mod length (TaskList s)) @ [task]]\<rparr>"
    unfolding s1 by (auto simp: setTask_def new_Stack_def intro!: Kernel.equality)
  with k T rc scan valid emp show ?thesis by blast
qed

section \<open>A failing start\<close>

text \<open>
  C8. A failing \<^verbatim>\<open>Task::Start\<close> leaves no partial state. For a live task that is not yet
  started nor registered: if the stack allocation returns null, or the task table has
  no free slot, \<^verbatim>\<open>Start\<close> returns false, and afterwards the buckets and the object table
  are unchanged (the task is in no bucket and holds no slot), the allocated stack has
  been freed again (only the log of frees records it), and the task owns no stack and
  has no function installed.
\<close>

theorem C8_Start_fails_cleanly:
  assumes "Tasks s task = Some T" and "Stack T = None" and "Function T = None"
    and "0 < RefCounter T"
    and "task \<notin> set (concat (TaskList s))" and "Some task \<notin> set (ObjectArray s)"
    and "\<forall>k. alloc = Some k \<longrightarrow> Stacks s k = None"
    and "alloc = None \<or> (\<forall>i < length (ObjectArray s). ObjectArray s ! i \<noteq> None)"
  shows "\<exists>s'. Start cfg alloc func ctx task s = Inr (False, s') \<and>
           s' = s\<lparr>FreedStacks := FreedStacks s @ (case alloc of None \<Rightarrow> [] | Some k \<Rightarrow> [k])\<rparr> \<and>
           task \<notin> set (concat (TaskList s')) \<and> Some task \<notin> set (ObjectArray s') \<and>
           ObjectArray s' = ObjectArray s \<and> TaskList s' = TaskList s \<and> CpuArray s' = CpuArray s \<and>
           Stacks s' = Stacks s \<and> Tasks s' = Tasks s \<and>
           (\<exists>T'. Tasks s' task = Some T' \<and> Stack T' = None \<and> Function T' = None \<and> Pid T' = Pid T)"
proof (cases alloc)
  case None
  have "PrepareStart cfg alloc func ctx task s = Inr (False, s)"
    unfolding None by (rule PrepareStart_nomem [OF assms(1,2,3)])
  then have "Start cfg alloc func ctx task s = Inr (False, s)"
    by (simp add: Start_def)
  with None assms show ?thesis by simp
next
  case (Some k)
  with assms(8) have full: "\<forall>i < length (ObjectArray s). ObjectArray s ! i \<noteq> None" by simp
  from Some assms(7) have fresh: "Stacks s k = None" by simp
  have "PrepareStart cfg alloc func ctx task s =
      Inr (False, s\<lparr>Stacks := (Stacks s)(k := None), FreedStacks := FreedStacks s @ [k]\<rparr>)"
    unfolding Some by (rule PrepareStart_table_full [OF assms(1,2,3,4) full])
  moreover have "(Stacks s)(k := None) = Stacks s"
    using fresh by (simp add: fun_upd_idem_iff)
  ultimately have "Start cfg alloc func ctx task s = Inr (False, s\<lparr>FreedStacks := FreedStacks s @ [k]\<rparr>)"
    by (simp add: Start_def)
  with Some assms show ?thesis by simp
qed

theorem C8_Start_fails_cleanly_witness:
  "Tasks kernel_full task0 = Some (Task_new cfg0)
   \<and> Stack (Task_new cfg0) = None \<and> Function (Task_new cfg0) = None \<and> 0 < RefCounter (Task_new cfg0)
   \<and> task0 \<notin> set (concat (TaskList kernel_full)) \<and> Some task0 \<notin> set (ObjectArray kernel_full)
   \<and> Stacks kernel_full stack0 = None
   \<and> None \<notin> set (ObjectArray kernel_full)
   \<and> Start cfg0 (Some stack0) (Some func0) None task0 kernel_full
        = Inr (False, kernel_full\<lparr>FreedStacks := [stack0]\<rparr>)"
proof -
  have h1: "Tasks kernel_full task0 = Some (Task_new cfg0)"
    by (simp add: kernel_full_def kernel1_def new_Task_def)
  have h2: "Stack (Task_new cfg0) = None" and h3: "Function (Task_new cfg0) = None"
    and h4: "0 < RefCounter (Task_new cfg0)"
    by (simp_all add: Task_new_def)
  have h5: "task0 \<notin> set (concat (TaskList kernel_full))"
    and h6: "Some task0 \<notin> set (ObjectArray kernel_full)"
    by (simp_all add: kernel_full_def kernel1_def new_Task_def kernel0_def task0_def)
  have h7: "\<forall>k. Some stack0 = Some k \<longrightarrow> Stacks kernel_full k = None"
    by (simp add: kernel_full_def kernel1_def new_Task_def kernel0_def)
  have h8: "\<forall>i < length (ObjectArray kernel_full). ObjectArray kernel_full ! i \<noteq> None"
    by (simp add: kernel_full_def less_Suc_eq)
  have fr: "FreedStacks kernel_full = []"
    by (simp add: kernel_full_def kernel1_def new_Task_def kernel0_def)
  from C8_Start_fails_cleanly [OF h1 h2 h3 h4 h5 h6 h7 disjI2 [OF h8], of cfg0 "Some func0" None]
  have "Start cfg0 (Some stack0) (Some func0) None task0 kernel_full
        = Inr (False, kernel_full\<lparr>FreedStacks := [stack0]\<rparr>)"
    by (simp add: fr)
  moreover have "Stacks kernel_full stack0 = None" and "None \<notin> set (ObjectArray kernel_full)"
    by (simp_all add: kernel_full_def kernel1_def new_Task_def kernel0_def)
  ultimately show ?thesis using h1 h2 h3 h4 h5 h6 by simp
qed

section \<open>Start: initial frame and placement\<close>

lemma SelectNextTaskQueue_cong:
  assumes "Tasks s task = Some T" and "Tasks s' task = Some T'"
    and "CpuAffinity T' = CpuAffinity T" and "TaskQueue T' = TaskQueue T"
    and "RunningCpus s' = RunningCpus s" and "CpuArray s' = CpuArray s"
  shows "SelectNextTaskQueue task s' = SelectNextTaskQueue task s"
  using assms by (simp add: SelectNextTaskQueue_def Let_def)

lemma SelectNextTaskQueue_empty:
  assumes "Tasks s task = Some T" and "RunningCpus s AND CpuAffinity T = 0"
  shows "SelectNextTaskQueue task s = Inr None"
  using assms by (simp add: SelectNextTaskQueue_def)

lemma Start_InitFrame_Inr:
  assumes "Tasks s task = Some T" and "Stack T = Some k"
  shows "Start_InitFrame cfg task s =
           Inr (setTask task (T\<lparr>Rsp := Start_regs cfg k, State := StateWaiting\<rparr>)
                 (s\<lparr>Mem := (MemSetZero ((Mem s)(Start_regs cfg k + ContextSize cfg := ExecAddr cfg))
                              (Start_regs cfg k) (ContextSize cfg))
                           (Start_regs cfg k + RdiOff cfg := task,
                            Start_regs cfg k + RflagsOff cfg := push_bit 9 1)\<rparr>))"
  using assms by (simp add: Start_InitFrame_def Start_regs_def Let_def)

lemma InitFrame_Mem:
  fixes regs :: ulong
  assumes "rdi \<noteq> rfl" and "rdi < sz" and "rfl < sz"
    and "m' = (MemSetZero (m(regs + sz := ex)) regs sz)(regs + rdi := t, regs + rfl := fl)"
  shows "m' (regs + rdi) = t" and "m' (regs + rfl) = fl" and "m' (regs + sz) = ex"
    and "\<forall>a. a - regs < sz \<and> a \<noteq> regs + rdi \<and> a \<noteq> regs + rfl \<longrightarrow> m' a = 0"
    and "\<forall>a. \<not> a - regs < sz \<and> a \<noteq> regs + sz \<longrightarrow> m' a = m a"
  using assms by (auto simp: MemSetZero_def)

lemma Start_True:
  assumes "Start cfg alloc func ctx task s = Inr (True, s')"
  shows "\<exists>k s1 s2 q T1. alloc = Some k \<and>
           PrepareStart cfg alloc func ctx task s = Inr (True, s1) \<and>
           Tasks s1 task = Some T1 \<and> Stack T1 = Some k \<and>
           Start_InitFrame cfg task s1 = Inr s2 \<and>
           SelectNextTaskQueue task s2 = Inr (Some q) \<and>
           TaskQueue_Insert q task s2 = Inr s'"
proof -
  from assms obtain ok s1 where p: "PrepareStart cfg alloc func ctx task s = Inr (ok, s1)"
    and rest: "(if \<not> ok then Inr (False, s1)
       else bindE (Start_InitFrame cfg task s1) (\<lambda>s2.
              bindE (SelectNextTaskQueue task s2) (\<lambda>taskQueue.
                case taskQueue of
                  None \<Rightarrow> Inl NullDeref
                | Some q \<Rightarrow> bindE (TaskQueue_Insert q task s2) (\<lambda>s3. Inr (True, s3))))) = Inr (True, s')"
    by (auto simp: Start_def bindE_eq_Inr)
  from rest have ok: "ok" by (auto split: if_splits)
  from p ok have p': "PrepareStart cfg alloc func ctx task s = Inr (True, s1)" by simp
  from PrepareStart_True [OF p']
  obtain k T1 where k: "alloc = Some k" and T1: "Tasks s1 task = Some T1" "Stack T1 = Some k"
    by auto
  from rest ok obtain s2 q where "Start_InitFrame cfg task s1 = Inr s2"
    "SelectNextTaskQueue task s2 = Inr (Some q)" "TaskQueue_Insert q task s2 = Inr s'"
    by (auto simp: bindE_eq_Inr split: option.splits)
  with k p' T1 show ?thesis by blast
qed

lemma TaskQueue_Insert_Inr:
  assumes "TaskQueue_Insert q task s = Inr s'"
  shows "\<exists>T. Tasks s task = Some T \<and> q < length (CpuArray s) \<and> Mem s' = Mem s \<and>
           Tasks s' task = Some (T\<lparr>RefCounter := RefCounter T + 1, TaskQueue := Some q\<rparr>) \<and>
           QueueTasks (CpuArray s' ! q) = QueueTasks (CpuArray s ! q) @ [task]"
  using assms
  by (auto simp: TaskQueue_Insert_def bindE_eq_Inr Task_Get_Inr setTask_def split: if_splits)

lemma Start_empty_mask_NullDeref:
  assumes "Tasks s task = Some T" and "RunningCpus s AND CpuAffinity T = 0"
    and "PrepareStart cfg alloc func ctx task s = Inr (True, s1)"
  shows "Start cfg alloc func ctx task s = Inl NullDeref"
proof -
  from PrepareStart_True [OF assms(3)] assms(1)
  obtain k T1 where T1: "Tasks s1 task = Some T1" "Stack T1 = Some k"
    and same: "CpuAffinity T1 = CpuAffinity T" "TaskQueue T1 = TaskQueue T"
      "RunningCpus s1 = RunningCpus s" "CpuArray s1 = CpuArray s"
    by auto
  let ?s2 = "setTask task (T1\<lparr>Rsp := Start_regs cfg k, State := StateWaiting\<rparr>)
                 (s1\<lparr>Mem := (MemSetZero ((Mem s1)(Start_regs cfg k + ContextSize cfg := ExecAddr cfg))
                              (Start_regs cfg k) (ContextSize cfg))
                           (Start_regs cfg k + RdiOff cfg := task,
                            Start_regs cfg k + RflagsOff cfg := push_bit 9 1)\<rparr>)"
  have fr: "Start_InitFrame cfg task s1 = Inr ?s2"
    by (rule Start_InitFrame_Inr [OF T1])
  have sel: "SelectNextTaskQueue task
      (setTask task (T1\<lparr>Rsp := Start_regs cfg k, State := StateWaiting\<rparr>) (s1\<lparr>Mem := m\<rparr>)) = Inr None"
    for m
  proof -
    let ?s = "setTask task (T1\<lparr>Rsp := Start_regs cfg k, State := StateWaiting\<rparr>) (s1\<lparr>Mem := m\<rparr>)"
    have t2: "Tasks ?s task = Some (T1\<lparr>Rsp := Start_regs cfg k, State := StateWaiting\<rparr>)"
      by (simp add: setTask_def)
    have "SelectNextTaskQueue task ?s = SelectNextTaskQueue task s"
      by (rule SelectNextTaskQueue_cong [OF assms(1) t2]) (simp_all add: setTask_def same)
    also have "\<dots> = Inr None"
      by (rule SelectNextTaskQueue_empty [OF assms(1,2)])
    finally show ?thesis .
  qed
  show ?thesis
    by (simp add: Start_def assms(3) fr sel)
qed

lemma PrepareStart_kernel_pinned:
  "PrepareStart cfg0 (Some stack0) (Some func0) None task0 kernel_pinned =
     Inr (True, kernel_pinned
       \<lparr>Tasks := (Tasks kernel_pinned)(task0 \<mapsto>
            (Task_new cfg0)\<lparr>CpuAffinity := 4, Pid := 0, Stack := Some stack0,
                             Function := Some func0, RefCounter := 3\<rparr>),
        Stacks := (Stacks kernel_pinned)(stack0 \<mapsto>
            \<lparr>Magic1 = StackMagic1 cfg0, StackTask = task0, Magic2 = StackMagic2 cfg0\<rparr>),
        ObjectArray := [Some task0, None],
        TaskList := [[task0], [], [], []]\<rparr>)"
  by (simp add: PrepareStart_def TaskTable_Insert_def ObjectTable_Insert_def Task_Get_def
      Task_Put_def setTask_def new_Stack_def TableListEntry_IsEmpty_def InsertScan.simps
      kernel_pinned_def kernel0_def Task_new_def cfg0_def task0_def stack0_def Let_def)

text \<open>
  C3. For a task whose affinity mask has no bit in common with the running CPUs,
  \<^verbatim>\<open>SelectNextTaskQueue\<close> returns null. \<^verbatim>\<open>Task::Start\<close> does not treat this as a failure: it
  calls \<^verbatim>\<open>Insert\<close> on the null queue. For the task pinned to CPU 2 while CPUs 0 and 1
  run, \<^verbatim>\<open>SelectNextTaskQueue\<close> returns null and \<^verbatim>\<open>Start\<close> ends in a null dereference
  instead of returning false (lemma \<open>Start_empty_mask_NullDeref\<close> shows the same for
  every such task once \<^verbatim>\<open>PrepareStart\<close> has succeeded).
\<close>

theorem C3_Start_empty_affinity_null_queue:
  "SelectNextTaskQueue task0 kernel_pinned = Inr None
   \<and> Start cfg0 (Some stack0) (Some func0) None task0 kernel_pinned = Inl NullDeref"
proof -
  have t: "Tasks kernel_pinned task0 = Some ((Task_new cfg0)\<lparr>CpuAffinity := 4\<rparr>)"
    by (simp add: kernel_pinned_def setTask_def)
  have m: "RunningCpus kernel_pinned AND CpuAffinity ((Task_new cfg0)\<lparr>CpuAffinity := 4\<rparr>) = 0"
    by (simp add: kernel_pinned_def setTask_def kernel0_def)
  from SelectNextTaskQueue_empty [OF t m]
    Start_empty_mask_NullDeref [OF t m PrepareStart_kernel_pinned]
  show ?thesis by simp
qed

lemma bit_IF_only: "bit (push_bit 9 1 :: ulong) n \<longleftrightarrow> n = 9"
proof -
  have "bit (push_bit 9 1 :: ulong) n \<longleftrightarrow>
      9 \<le> n \<and> possible_bit TYPE(ulong) n \<and> bit (1 :: ulong) (n - 9)"
    by (rule bit_push_bit_iff)
  also have "\<dots> \<longleftrightarrow> n = 9"
    by (auto simp: bit_1_iff possible_bit_word)
  finally show ?thesis .
qed

text \<open>
  C7. For every successful \<^verbatim>\<open>Task::Start\<close>, in the state that is handed to the queue
  insertion the task is Waiting, its saved stack pointer is the register frame below
  the return-address slot at the stack top, the return address is the trampoline
  \<^verbatim>\<open>Task::Exec\<close>, RDI of the frame is the task pointer, RFLAGS has exactly bit 9 (IF)
  set and every other word of the frame is zero; the enqueueing changes none of
  this. (RDI and RFLAGS are distinct fields inside \<^verbatim>\<open>Context\<close>.)
\<close>

theorem C7_Start_initial_frame:
  assumes "Start cfg alloc func ctx task s = Inr (True, s')"
    and "RdiOff cfg \<noteq> RflagsOff cfg"
    and "RdiOff cfg < ContextSize cfg" and "RflagsOff cfg < ContextSize cfg"
  shows "\<exists>k s2 q T2 T'. alloc = Some k \<and>
           Tasks s2 task = Some T2 \<and> State T2 = StateWaiting \<and> Stack T2 = Some k \<and>
           Rsp T2 = Start_regs cfg k \<and>
           Rsp T2 + ContextSize cfg = k + StackTopOff cfg - 8 \<and>
           Mem s2 (Rsp T2 + ContextSize cfg) = ExecAddr cfg \<and>
           Mem s2 (Rsp T2 + RdiOff cfg) = task \<and>
           Mem s2 (Rsp T2 + RflagsOff cfg) = push_bit 9 1 \<and>
           (\<forall>n. bit (Mem s2 (Rsp T2 + RflagsOff cfg)) n \<longleftrightarrow> n = 9) \<and>
           (\<forall>a. a - Rsp T2 < ContextSize cfg \<and> a \<noteq> Rsp T2 + RdiOff cfg \<and>
                a \<noteq> Rsp T2 + RflagsOff cfg \<longrightarrow> Mem s2 a = 0) \<and>
           SelectNextTaskQueue task s2 = Inr (Some q) \<and>
           TaskQueue_Insert q task s2 = Inr s' \<and>
           Mem s' = Mem s2 \<and> Tasks s' task = Some T' \<and> State T' = StateWaiting \<and>
           Rsp T' = Rsp T2 \<and> Stack T' = Some k \<and> TaskQueue T' = Some q"
proof -
  from Start_True [OF assms(1)]
  obtain k s1 s2 q T1 where k: "alloc = Some k"
    and T1: "Tasks s1 task = Some T1" "Stack T1 = Some k"
    and fr: "Start_InitFrame cfg task s1 = Inr s2"
    and sel: "SelectNextTaskQueue task s2 = Inr (Some q)"
    and ins: "TaskQueue_Insert q task s2 = Inr s'"
    by blast
  let ?regs = "Start_regs cfg k"
  let ?T2 = "T1\<lparr>Rsp := ?regs, State := StateWaiting\<rparr>"
  let ?m = "(MemSetZero ((Mem s1)(?regs + ContextSize cfg := ExecAddr cfg)) ?regs (ContextSize cfg))
              (?regs + RdiOff cfg := task, ?regs + RflagsOff cfg := push_bit 9 1)"
  from fr Start_InitFrame_Inr [OF T1, of cfg]
  have s2: "s2 = setTask task ?T2 (s1\<lparr>Mem := ?m\<rparr>)"
    by simp
  have t2: "Tasks s2 task = Some ?T2" and m2: "Mem s2 = ?m"
    by (simp_all add: s2 setTask_def)
  note mem = InitFrame_Mem [where m = "Mem s1" and regs = ?regs and ex = "ExecAddr cfg"
      and t = task and fl = "push_bit 9 1", OF assms(2,3,4) refl]
  let ?T' = "?T2\<lparr>RefCounter := RefCounter ?T2 + 1, TaskQueue := Some q\<rparr>"
  have st2: "State ?T2 = StateWaiting" and sk2: "Stack ?T2 = Some k"
    and r2: "Rsp ?T2 = Start_regs cfg k"
    using T1 by simp_all
  have c1: "Rsp ?T2 + ContextSize cfg = k + StackTopOff cfg - 8"
    by (simp add: Start_regs_def)
  have c2: "Mem s2 (Rsp ?T2 + ContextSize cfg) = ExecAddr cfg"
    unfolding m2 r2 by (rule mem(3))
  have c3: "Mem s2 (Rsp ?T2 + RdiOff cfg) = task"
    unfolding m2 r2 by (rule mem(1))
  have c4: "Mem s2 (Rsp ?T2 + RflagsOff cfg) = push_bit 9 1"
    unfolding m2 r2 by (rule mem(2))
  have c5: "\<forall>n. bit (Mem s2 (Rsp ?T2 + RflagsOff cfg)) n \<longleftrightarrow> n = 9"
    unfolding c4 by (rule allI) (rule bit_IF_only)
  have c6: "\<forall>a. a - Rsp ?T2 < ContextSize cfg \<and> a \<noteq> Rsp ?T2 + RdiOff cfg \<and>
                a \<noteq> Rsp ?T2 + RflagsOff cfg \<longrightarrow> Mem s2 a = 0"
    unfolding m2 r2 by (rule mem(4))
  from TaskQueue_Insert_Inr [OF ins] t2
  have a1: "Mem s' = Mem s2" and a2: "Tasks s' task = Some ?T'"
    by auto
  have a3: "State ?T' = StateWaiting" and a4: "Rsp ?T' = Rsp ?T2"
    and a5: "Stack ?T' = Some k" and a6: "TaskQueue ?T' = Some q"
    using T1 by simp_all
  show ?thesis
    by (intro exI conjI)
      (rule k t2 st2 sk2 r2 c1 c2 c3 c4 c5 c6 sel ins a1 a2 a3 a4 a5 a6)+
qed

lemma PrepareStart_kernel1:
  "PrepareStart cfg0 (Some stack0) (Some func0) None task0 kernel1 =
     Inr (True, kernel1
       \<lparr>Tasks := (Tasks kernel1)(task0 \<mapsto>
            (Task_new cfg0)\<lparr>Pid := 0, Stack := Some stack0,
                             Function := Some func0, RefCounter := 3\<rparr>),
        Stacks := (Stacks kernel1)(stack0 \<mapsto>
            \<lparr>Magic1 = StackMagic1 cfg0, StackTask = task0, Magic2 = StackMagic2 cfg0\<rparr>),
        ObjectArray := [Some task0, None],
        TaskList := [[task0], [], [], []]\<rparr>)"
  by (simp add: PrepareStart_def TaskTable_Insert_def ObjectTable_Insert_def Task_Get_def
      Task_Put_def setTask_def new_Stack_def TableListEntry_IsEmpty_def InsertScan.simps
      kernel1_def new_Task_def kernel0_def Task_new_def cfg0_def task0_def stack0_def Let_def)

lemma Start_kernel1:
  "Start cfg0 (Some stack0) (Some func0) None task0 kernel1 = Inr (True, kernel_started)"
proof -
  have "\<exists>s'. Start cfg0 (Some stack0) (Some func0) None task0 kernel1 = Inr (True, s')"
    apply (simp add: Start_def PrepareStart_kernel1)
    apply (simp add: Start_InitFrame_def SelectNextTaskQueue_def
        TaskQueue_Insert_def Task_Get_def setTask_def SelectLoop.simps
        kernel1_def new_Task_def kernel0_def Task_new_def Let_def)
    done
  then show ?thesis
    by (auto simp: kernel_started_def)
qed

theorem C7_Start_initial_frame_witness:
  "Start cfg0 (Some stack0) (Some func0) None task0 kernel1 = Inr (True, kernel_started)
   \<and> RdiOff cfg0 \<noteq> RflagsOff cfg0 \<and> RdiOff cfg0 < ContextSize cfg0
   \<and> RflagsOff cfg0 < ContextSize cfg0
   \<and> map_option State (Tasks kernel_started task0) = Some StateWaiting
   \<and> map_option Rsp (Tasks kernel_started task0) = Some 0x17F68
   \<and> Mem kernel_started 0x17FE8 = ExecAddr cfg0
   \<and> Mem kernel_started (0x17F68 + RdiOff cfg0) = task0
   \<and> Mem kernel_started (0x17F68 + RflagsOff cfg0) = 0x200"
proof -
  have h2: "RdiOff cfg0 \<noteq> RflagsOff cfg0" and h3: "RdiOff cfg0 < ContextSize cfg0"
    and h4: "RflagsOff cfg0 < ContextSize cfg0"
    by (simp_all add: cfg0_def)
  have regs: "Start_regs cfg0 stack0 = 0x17F68"
    and top: "stack0 + StackTopOff cfg0 - 8 = 0x17FE8"
    by (simp_all add: Start_regs_def cfg0_def stack0_def)
  from C7_Start_initial_frame [OF Start_kernel1 h2 h3 h4] show ?thesis
  proof (elim exE conjE)
    fix k s2 q T2 T'
    assume k: "Some stack0 = Some k"
      and r2: "Rsp T2 = Start_regs cfg0 k"
      and c1: "Rsp T2 + ContextSize cfg0 = k + StackTopOff cfg0 - 8"
      and c2: "Mem s2 (Rsp T2 + ContextSize cfg0) = ExecAddr cfg0"
      and c3: "Mem s2 (Rsp T2 + RdiOff cfg0) = task0"
      and c4: "Mem s2 (Rsp T2 + RflagsOff cfg0) = push_bit 9 1"
      and a1: "Mem kernel_started = Mem s2"
      and a2: "Tasks kernel_started task0 = Some T'"
      and a3: "State T' = StateWaiting"
      and a4: "Rsp T' = Rsp T2"
    from k have k': "k = stack0" by simp
    from r2 have r2': "Rsp T2 = 0x17F68" by (simp add: k' regs)
    from c2 have "Mem kernel_started 0x17FE8 = ExecAddr cfg0"
      by (simp add: c1 k' top a1)
    moreover from c3 have "Mem kernel_started (0x17F68 + RdiOff cfg0) = task0"
      by (simp add: r2' a1)
    moreover from c4 have "Mem kernel_started (0x17F68 + RflagsOff cfg0) = 0x200"
      by (simp add: r2' a1)
    moreover have "map_option State (Tasks kernel_started task0) = Some StateWaiting"
      by (simp add: a2 a3)
    moreover have "map_option Rsp (Tasks kernel_started task0) = Some 0x17F68"
      by (simp add: a2 a4 r2')
    ultimately show ?thesis
      using Start_kernel1 h2 h3 h4 by simp
  qed
qed

section \<open>The current task from the stack pointer\<close>

lemma aligned_add_mask:
  fixes b d :: ulong
  assumes al: "b AND mask n = 0" and lt: "d < 2 ^ n"
  shows "(b + d) AND NOT (mask n) = b"
proof -
  have dm: "d AND mask n = d"
    by (rule less_mask_eq [OF lt])
  have bb: "\<not> bit b i" if "i < n" for i
  proof
    assume "bit b i"
    with that bit_imp_le_length [of b i] have "bit (b AND mask n) i"
      by (simp add: bit_and_iff bit_mask_iff)
    with al show False by simp
  qed
  have dd: "i < n" if "bit d i" for i
  proof -
    from that dm have "bit (d AND mask n) i" by simp
    then show ?thesis by (simp add: bit_and_iff bit_mask_iff)
  qed
  have "b AND d = 0"
    by (rule bit_eqI) (auto simp: bit_and_iff dest: bb dd)
  then have "b + d = b OR d"
    by (rule disjunctive_add_eq_or)
  then show ?thesis
    by (auto intro!: bit_eqI simp: bit_and_iff bit_or_iff bit_not_iff bit_mask_iff dest: bb dd)
qed

lemma aligned_no_wrap:
  fixes b :: ulong
  assumes "b AND mask n = 0" and "n < 64"
  shows "unat b + 2 ^ n \<le> 2 ^ 64"
proof -
  from assms(1) have "2 ^ n dvd unat b"
    by (simp add: and_mask_dvd_nat)
  then obtain m where m: "unat b = 2 ^ n * m" by (auto elim: dvdE)
  have "unat b < 2 ^ 64" using unsigned_less [of b] by simp
  moreover have e: "(2::nat) ^ 64 = 2 ^ n * 2 ^ (64 - n)"
    using assms(2) by (simp flip: power_add)
  ultimately have "2 ^ n * m < (2::nat) ^ n * 2 ^ (64 - n)" using m by simp
  then have "m < 2 ^ (64 - n)" by (simp only: mult_less_cancel1)
  then have "m + 1 \<le> 2 ^ (64 - n)" by simp
  then have "2 ^ n * (m + 1) \<le> (2::nat) ^ n * 2 ^ (64 - n)"
    by (rule mult_le_mono2)
  with m e show ?thesis by simp
qed

lemma word_less_2p_nat:
  fixes w :: ulong
  assumes "n < 64"
  shows "w < 2 ^ n \<longleftrightarrow> unat w < 2 ^ n"
proof -
  have "w < 2 ^ n \<longleftrightarrow> uint w < 2 ^ n"
    using assms by (simp add: word_2p_lem word_size)
  also have "\<dots> \<longleftrightarrow> int (unat w) < 2 ^ n"
    by simp
  also have "\<dots> \<longleftrightarrow> unat w < 2 ^ n"
    by (metis of_nat_less_iff of_nat_numeral of_nat_power)
  finally show ?thesis .
qed

lemma rsp_in_stack:
  fixes b rsp top bot page :: ulong
  assumes nw: "unat b + 2 ^ n \<le> 2 ^ 64" and "n < 64" and top: "top < 2 ^ n"
    and geo: "unat bot + unat page \<le> unat top"
    and lo: "b + bot + page \<le> rsp" and hi: "rsp \<le> b + top"
  shows "b + (rsp - b) = rsp \<and> rsp - b < 2 ^ n"
proof -
  from top have t: "unat top < 2 ^ n"
    by (simp add: word_less_2p_nat [OF assms(2)])
  from nw t have bt: "unat (b + top) = unat b + unat top"
    by (simp add: unat_word_ariths)
  from nw t geo have bl: "unat (b + bot + page) = unat b + unat bot + unat page"
    by (simp add: unat_word_ariths)
  from lo bl have l: "unat b \<le> unat rsp"
    by (simp add: word_le_nat_alt)
  from hi bt have h: "unat rsp \<le> unat b + unat top"
    by (simp add: word_le_nat_alt)
  from l have "b \<le> rsp" by (simp add: word_le_nat_alt)
  then have "unat (rsp - b) = unat rsp - unat b"
    by (rule unat_sub)
  with h t have "unat (rsp - b) < 2 ^ n" by simp
  then have "rsp - b < 2 ^ n"
    by (simp add: word_less_2p_nat [OF assms(2)])
  then show ?thesis by simp
qed

lemma GetCurrentTask_Inr:
  assumes "GetCurrentTask cfg rsp s = Inr t"
  shows "\<exists>st T. Stacks s (rsp AND NOT (StackSize cfg - 1)) = Some st \<and>
           Magic1 st = StackMagic1 cfg \<and> Magic2 st = StackMagic2 cfg \<and> StackTask st = t \<and>
           (rsp AND NOT (StackSize cfg - 1)) + StackBottomOff cfg + PageSize cfg \<le> rsp \<and>
           rsp \<le> (rsp AND NOT (StackSize cfg - 1)) + StackTopOff cfg \<and>
           Tasks s t = Some T \<and> Magic T = TaskMagic cfg"
  using assms
  by (auto simp: GetCurrentTask_def Let_def not_less split: option.splits if_splits)

text \<open>
  C9. The specification takes as valid every stack pointer strictly between the end of the
  header and the stack top. The code accepts a different range: from one page above
  the end of the header (the guard page below is refused) up to and including the
  stack top. For a stack aligned to the power of two \<^verbatim>\<open>StackSize\<close>, with both stack magics
  and the task magic intact, and any \<open>rsp\<close> in that range, masking \<open>rsp\<close> with
  \<^verbatim>\<open>~(StackSize - 1)\<close> gives the stack header and \<^verbatim>\<open>GetCurrentTask\<close> returns the task of
  that stack. Whenever \<^verbatim>\<open>GetCurrentTask\<close> returns a task at all, the header at the masked
  address has both magics, names that task, the stack pointer is in the range and the
  task's magic is intact; in every other case the call ends in a fatal check.
\<close>

theorem C9_GetCurrentTask_recovers_task:
  assumes "StackSize cfg = 2 ^ n" and "n < 64" and "StackTopOff cfg < StackSize cfg"
    and "unat (StackBottomOff cfg) + unat (PageSize cfg) \<le> unat (StackTopOff cfg)"
    and "Stacks s b = Some st" and "b AND (StackSize cfg - 1) = 0"
    and "Magic1 st = StackMagic1 cfg" and "Magic2 st = StackMagic2 cfg" and "StackTask st = t"
    and "Tasks s t = Some T" and "Magic T = TaskMagic cfg"
    and "b + StackBottomOff cfg + PageSize cfg \<le> rsp" and "rsp \<le> b + StackTopOff cfg"
  shows "rsp AND NOT (StackSize cfg - 1) = b \<and> GetCurrentTask cfg rsp s = Inr t \<and>
         (\<forall>rsp' t'. GetCurrentTask cfg rsp' s = Inr t' \<longrightarrow>
            (\<exists>st' T'. Stacks s (rsp' AND NOT (StackSize cfg - 1)) = Some st' \<and>
               Magic1 st' = StackMagic1 cfg \<and> Magic2 st' = StackMagic2 cfg \<and> StackTask st' = t' \<and>
               (rsp' AND NOT (StackSize cfg - 1)) + StackBottomOff cfg + PageSize cfg \<le> rsp' \<and>
               rsp' \<le> (rsp' AND NOT (StackSize cfg - 1)) + StackTopOff cfg \<and>
               Tasks s t' = Some T' \<and> Magic T' = TaskMagic cfg))"
proof -
  have m: "StackSize cfg - 1 = mask n"
    by (simp add: assms(1) mask_eq_decr_exp)
  from assms(6) have al: "b AND mask n = 0" by (simp add: m)
  have nw: "unat b + 2 ^ n \<le> 2 ^ 64"
    by (rule aligned_no_wrap [OF al assms(2)])
  from assms(3) have top: "StackTopOff cfg < 2 ^ n" by (simp add: assms(1))
  from rsp_in_stack [OF nw assms(2) top assms(4) assms(12) assms(13)]
  have split: "b + (rsp - b) = rsp" and d: "rsp - b < 2 ^ n" by simp_all
  from aligned_add_mask [OF al d] split have base: "rsp AND NOT (StackSize cfg - 1) = b"
    by (simp add: m)
  have lo: "\<not> rsp < b + StackBottomOff cfg + PageSize cfg"
    using assms(12) by (simp add: not_less)
  have hi: "\<not> rsp > b + StackTopOff cfg"
    using assms(13) by (simp add: not_less)
  have run: "GetCurrentTask cfg rsp s = Inr t"
    using assms(5,7,8,9,10,11) lo hi by (simp add: GetCurrentTask_def base)
  from base run GetCurrentTask_Inr show ?thesis by blast
qed

theorem C9_GetCurrentTask_witness:
  "StackSize cfg0 = 2 ^ 15 \<and> (15::nat) < 64 \<and> StackTopOff cfg0 < StackSize cfg0
   \<and> unat (StackBottomOff cfg0) + unat (PageSize cfg0) \<le> unat (StackTopOff cfg0)
   \<and> Stacks kernel_stk stack0 = Some \<lparr>Magic1 = StackMagic1 cfg0, StackTask = task0, Magic2 = StackMagic2 cfg0\<rparr>
   \<and> stack0 AND (StackSize cfg0 - 1) = 0
   \<and> Tasks kernel_stk task0 = Some ((Task_new cfg0)\<lparr>Stack := Some stack0\<rparr>)
   \<and> Magic ((Task_new cfg0)\<lparr>Stack := Some stack0\<rparr>) = TaskMagic cfg0
   \<and> stack0 + StackBottomOff cfg0 + PageSize cfg0 \<le> 0x17000 \<and> 0x17000 \<le> stack0 + StackTopOff cfg0
   \<and> GetCurrentTask cfg0 0x17000 kernel_stk = Inr task0"
proof -
  let ?st = "\<lparr>Magic1 = StackMagic1 cfg0, StackTask = task0, Magic2 = StackMagic2 cfg0\<rparr>"
  let ?T = "(Task_new cfg0)\<lparr>Stack := Some stack0\<rparr>"
  have h1: "StackSize cfg0 = 2 ^ 15" and h2: "(15::nat) < 64"
    and h3: "StackTopOff cfg0 < StackSize cfg0"
    and h4: "unat (StackBottomOff cfg0) + unat (PageSize cfg0) \<le> unat (StackTopOff cfg0)"
    by (simp_all add: cfg0_def)
  have h5: "Stacks kernel_stk stack0 = Some ?st"
    by (simp add: kernel_stk_def setTask_def new_Stack_def)
  have h6: "stack0 AND (StackSize cfg0 - 1) = 0"
    by (simp add: cfg0_def stack0_def)
  have h7: "Magic1 ?st = StackMagic1 cfg0" and h8: "Magic2 ?st = StackMagic2 cfg0"
    and h9: "StackTask ?st = task0"
    by simp_all
  have h10: "Tasks kernel_stk task0 = Some ?T"
    by (simp add: kernel_stk_def setTask_def)
  have h11: "Magic ?T = TaskMagic cfg0"
    by (simp add: Task_new_def)
  have h12: "stack0 + StackBottomOff cfg0 + PageSize cfg0 \<le> 0x17000"
    and h13: "0x17000 \<le> stack0 + StackTopOff cfg0"
    by (simp_all add: cfg0_def stack0_def)
  from C9_GetCurrentTask_recovers_task [OF h1 h2 h3 h4 h5 h6 h7 h8 h9 h10 h11 h12 h13]
  have "GetCurrentTask cfg0 0x17000 kernel_stk = Inr task0" by simp
  with h1 h2 h3 h4 h5 h6 h10 h11 h12 h13 show ?thesis by simp
qed

theorem C9_guard_page_counterexample:
  "stack0 + StackBottomOff cfg0 < 0x10100 \<and> 0x10100 < stack0 + StackTopOff cfg0
   \<and> 0x10100 AND NOT (StackSize cfg0 - 1) = stack0
   \<and> map_option Magic1 (Stacks kernel_stk stack0) = Some (StackMagic1 cfg0)
   \<and> map_option Magic2 (Stacks kernel_stk stack0) = Some (StackMagic2 cfg0)
   \<and> map_option StackTask (Stacks kernel_stk stack0) = Some task0
   \<and> map_option Magic (Tasks kernel_stk task0) = Some (TaskMagic cfg0)
   \<and> map_option Stack (Tasks kernel_stk task0) = Some (Some stack0)
   \<and> GetCurrentTask cfg0 0x10100 kernel_stk = Inl BugCheck"
  by (simp add: GetCurrentTask_def kernel_stk_def setTask_def new_Stack_def Task_new_def
      cfg0_def stack0_def task0_def kernel0_def)

section \<open>Task table: lookup, removal and the pid\<close>

lemma Task_Put_Inr:
  assumes "Task_Put t s = Inr s'"
  shows "\<exists>T. Tasks s t = Some T \<and> 0 < RefCounter T \<and>
           ObjectArray s' = ObjectArray s \<and> TaskList s' = TaskList s \<and>
           CpuArray s' = CpuArray s \<and> RunningCpus s' = RunningCpus s \<and> Mem s' = Mem s \<and>
           (\<forall>a. a \<noteq> t \<longrightarrow> Tasks s' a = Tasks s a) \<and>
           Tasks s' t = (if RefCounter T = 1 then None else Some (T\<lparr>RefCounter := RefCounter T - 1\<rparr>))"
proof -
  from assms obtain T where T: "Tasks s t = Some T" and rc: "0 < RefCounter T"
    by (auto simp: Task_Put_def split: option.splits if_splits)
  show ?thesis
  proof (cases "RefCounter T = 1")
    case False
    with assms T rc have "s' = setTask t (T\<lparr>RefCounter := RefCounter T - 1\<rparr>) s"
      by (simp add: Task_Put_def Let_def)
    with T rc False show ?thesis by (simp add: setTask_def)
  next
    case True
    let ?s0 = "setTask t (T\<lparr>RefCounter := RefCounter T - 1\<rparr>) s"
    from assms T True obtain s1 where rel: "Task_Release t ?s0 = Inr s1"
      and del: "Task_delete t s1 = Inr s'"
      by (auto simp: Task_Put_def Let_def bindE_eq_Inr)
    from rel have s1: "ObjectArray s1 = ObjectArray s \<and> TaskList s1 = TaskList s \<and>
        CpuArray s1 = CpuArray s \<and> RunningCpus s1 = RunningCpus s \<and> Mem s1 = Mem s \<and>
        (\<forall>a. a \<noteq> t \<longrightarrow> Tasks s1 a = Tasks s a)"
      by (auto simp: Task_Release_def delete_Stack_def setTask_def bindE_eq_Inr
          split: option.splits if_splits)
    from del have "ObjectArray s' = ObjectArray s1 \<and> TaskList s' = TaskList s1 \<and>
        CpuArray s' = CpuArray s1 \<and> RunningCpus s' = RunningCpus s1 \<and> Mem s' = Mem s1 \<and>
        (\<forall>a. a \<noteq> t \<longrightarrow> Tasks s' a = Tasks s1 a) \<and> Tasks s' t = None"
      by (auto simp: Task_delete_def split: option.splits if_splits)
    with s1 T rc True show ?thesis by simp
  qed
qed

lemma ObjectTable_Lookup_empty:
  "objectId \<ge> length (ObjectArray s) \<or> ObjectArray s ! objectId = None \<Longrightarrow>
     ObjectTable_Lookup objectId s = Inr (None, s)"
  by (auto simp: ObjectTable_Lookup_def)

lemma ObjectTable_Lookup_hit:
  assumes "objectId < length (ObjectArray s)" and "ObjectArray s ! objectId = Some ob"
    and "Tasks s ob = Some T" and "0 < RefCounter T"
  shows "ObjectTable_Lookup objectId s =
           Inr (Some ob, setTask ob (T\<lparr>RefCounter := RefCounter T + 1\<rparr>) s)"
  using assms by (simp add: ObjectTable_Lookup_def Task_Get_def)

lemma TaskTable_Remove_Inr:
  assumes "Tasks s task = Some T" and "Pid T < length (ObjectArray s)"
    and "ObjectArray s ! Pid T = Some task"
    and "TaskTable_Remove task s = Inr s'"
  shows "2 \<le> RefCounter T \<and> task \<in> set (concat (TaskList s)) \<and>
         ObjectArray s' = (ObjectArray s)[Pid T := None] \<and>
         TaskList s' = map (removeAll task) (TaskList s) \<and>
         Tasks s' task = (if RefCounter T = 2 then None else Some (T\<lparr>RefCounter := RefCounter T - 2\<rparr>))"
proof -
  let ?s0 = "s\<lparr>ObjectArray := (ObjectArray s)[Pid T := None]\<rparr>"
  from assms(1,4) obtain s1 where r1: "ObjectTable_Remove (Pid T) s = Inr s1"
    and rest: "(case Tasks s1 task of
              None \<Rightarrow> Inl BadPointer
            | Some T1 \<Rightarrow>
                if TableListEntry_IsEmpty task s1 then Inl BugCheck
                else Task_Put task (TableListEntry_RemoveInit task s1)) = Inr s'"
    by (auto simp: TaskTable_Remove_def bindE_eq_Inr)
  from r1 assms(2,3) have p1: "Task_Put task ?s0 = Inr s1"
    by (simp add: ObjectTable_Remove_def Let_def)
  from rest obtain T1 where T1: "Tasks s1 task = Some T1"
    and ne: "\<not> TableListEntry_IsEmpty task s1"
    and p2: "Task_Put task (TableListEntry_RemoveInit task s1) = Inr s'"
    by (auto split: option.splits if_splits)
  from Task_Put_Inr [OF p1] assms(1) T1
  have rc1: "0 < RefCounter T" "RefCounter T \<noteq> 1" and T1': "T1 = T\<lparr>RefCounter := RefCounter T - 1\<rparr>"
    and f1: "ObjectArray s1 = (ObjectArray s)[Pid T := None]" "TaskList s1 = TaskList s"
    by (auto split: if_splits)
  have t1: "Tasks (TableListEntry_RemoveInit task s1) task = Some T1"
    by (simp add: TableListEntry_RemoveInit_def T1)
  from Task_Put_Inr [OF p2] t1
  have f2: "ObjectArray s' = ObjectArray s1" "TaskList s' = map (removeAll task) (TaskList s1)"
    and t2: "Tasks s' task = (if RefCounter T1 = 1 then None else Some (T1\<lparr>RefCounter := RefCounter T1 - 1\<rparr>))"
    by (auto simp: TableListEntry_RemoveInit_def)
  from ne f1 have "task \<in> set (concat (TaskList s))"
    by (simp add: TableListEntry_IsEmpty_def)
  moreover from t2 T1' rc1 have "Tasks s' task =
      (if RefCounter T = 2 then None else Some (T\<lparr>RefCounter := RefCounter T - 2\<rparr>))"
    by auto
  ultimately show ?thesis using rc1 f1 f2 by simp
qed

lemma TaskTable_Remove_total:
  assumes "Tasks s task = Some T" and "Pid T < length (ObjectArray s)"
    and "ObjectArray s ! Pid T = Some task"
    and "task \<in> set (concat (TaskList s))" and "3 \<le> RefCounter T"
  shows "\<exists>s'. TaskTable_Remove task s = Inr s'"
proof -
  let ?s0 = "s\<lparr>ObjectArray := (ObjectArray s)[Pid T := None]\<rparr>"
  let ?s1 = "setTask task (T\<lparr>RefCounter := RefCounter T - 1\<rparr>) ?s0"
  have t0: "Tasks ?s0 task = Some T" using assms(1) by simp
  have p1: "Task_Put task ?s0 = Inr ?s1"
    using Task_Put_keep [OF t0] assms(5) by simp
  have r1: "ObjectTable_Remove (Pid T) s = Inr ?s1"
    using assms(2,3) p1 by (simp add: ObjectTable_Remove_def Let_def)
  have t1: "Tasks ?s1 task = Some (T\<lparr>RefCounter := RefCounter T - 1\<rparr>)"
    by (simp add: setTask_def)
  have ne: "\<not> TableListEntry_IsEmpty task ?s1"
    using assms(4) by (simp add: TableListEntry_IsEmpty_def setTask_def)
  have t1': "Tasks (TableListEntry_RemoveInit task ?s1) task = Some (T\<lparr>RefCounter := RefCounter T - 1\<rparr>)"
    by (simp add: TableListEntry_RemoveInit_def setTask_def)
  have rc: "1 < RefCounter (T\<lparr>RefCounter := RefCounter T - 1\<rparr>)"
    using assms(5) by simp
  from Task_Put_keep [OF t1' rc]
  have "\<exists>s'. Task_Put task (TableListEntry_RemoveInit task ?s1) = Inr s'" by blast
  then show ?thesis
    using assms(1) ne by (simp add: TaskTable_Remove_def r1 t1)
qed

text \<open>
  C2. The specification says that \<^verbatim>\<open>TaskTable::Remove\<close> lowers the reference count by exactly one.
  The table holds two references, one taken by the embedded object table and one by
  the bucket list, and \<^verbatim>\<open>Remove\<close> drops both. For every live task whose pid names the
  slot that holds it (what \<^verbatim>\<open>TaskTable::Insert\<close> establishes), \<^verbatim>\<open>Lookup(task.pid)\<close> returns
  that task with one reference added; after every \<^verbatim>\<open>Remove\<close> that returns, the lookup of
  the pid returns null and the reference count has dropped by exactly two (a task
  that had only the table's two references is destroyed); \<^verbatim>\<open>Remove\<close> does return for
  a linked task with at least three references.
\<close>

theorem C2_Lookup_Remove_refcount:
  assumes "Tasks s task = Some T" and "0 < RefCounter T"
    and "Pid T < length (ObjectArray s)" and "ObjectArray s ! Pid T = Some task"
  shows "TaskTable_Lookup (Pid T) s =
           Inr (Some task, setTask task (T\<lparr>RefCounter := RefCounter T + 1\<rparr>) s)
         \<and> (\<forall>s'. TaskTable_Remove task s = Inr s' \<longrightarrow>
               TaskTable_Lookup (Pid T) s' = Inr (None, s') \<and>
               Tasks s' task = (if RefCounter T = 2 then None
                                else Some (T\<lparr>RefCounter := RefCounter T - 2\<rparr>)))
         \<and> (task \<in> set (concat (TaskList s)) \<and> 3 \<le> RefCounter T \<longrightarrow>
               (\<exists>s'. TaskTable_Remove task s = Inr s'))"
proof (intro conjI allI impI)
  show "TaskTable_Lookup (Pid T) s =
          Inr (Some task, setTask task (T\<lparr>RefCounter := RefCounter T + 1\<rparr>) s)"
    unfolding TaskTable_Lookup_def
    by (rule ObjectTable_Lookup_hit [OF assms(3,4,1,2)])
next
  fix s' assume rem: "TaskTable_Remove task s = Inr s'"
  from TaskTable_Remove_Inr [OF assms(1,3,4) rem]
  have arr: "ObjectArray s' = (ObjectArray s)[Pid T := None]"
    and t: "Tasks s' task = (if RefCounter T = 2 then None
                            else Some (T\<lparr>RefCounter := RefCounter T - 2\<rparr>))"
    by simp_all
  from arr assms(3) have "ObjectArray s' ! Pid T = None" by simp
  then show "TaskTable_Lookup (Pid T) s' = Inr (None, s')"
    unfolding TaskTable_Lookup_def by (simp add: ObjectTable_Lookup_empty)
  from t show "Tasks s' task = (if RefCounter T = 2 then None
                            else Some (T\<lparr>RefCounter := RefCounter T - 2\<rparr>))" .
next
  assume "task \<in> set (concat (TaskList s)) \<and> 3 \<le> RefCounter T"
  then show "\<exists>s'. TaskTable_Remove task s = Inr s'"
    using TaskTable_Remove_total [OF assms(1,3,4)] by simp
qed

lemma TaskTable_Insert_kernel1:
  "TaskTable_Insert cfg0 task0 kernel1 = Inr (True, kernel_registered)"
  by (simp add: TaskTable_Insert_def ObjectTable_Insert_def Task_Get_def
      Task_Put_def setTask_def TableListEntry_IsEmpty_def InsertScan.simps
      kernel_registered_def kernel1_def new_Task_def kernel0_def Task_new_def cfg0_def task0_def Let_def)

lemma TaskTable_Remove_kernel_registered:
  "TaskTable_Remove task0 kernel_registered = Inr kernel_removed"
  by (simp add: TaskTable_Remove_def ObjectTable_Remove_def Task_Put_def setTask_def
      TableListEntry_IsEmpty_def TableListEntry_RemoveInit_def
      kernel_registered_def kernel_removed_def kernel1_def new_Task_def kernel0_def
      Task_new_def Let_def)

theorem C2_Lookup_Remove_witness:
  "Tasks kernel_registered task0 = Some ((Task_new cfg0)\<lparr>Pid := 0, RefCounter := 3\<rparr>)
   \<and> ObjectArray kernel_registered ! 0 = Some task0
   \<and> TaskTable_Lookup 0 kernel_registered =
       Inr (Some task0, setTask task0 ((Task_new cfg0)\<lparr>Pid := 0, RefCounter := 4\<rparr>) kernel_registered)
   \<and> TaskTable_Remove task0 kernel_registered = Inr kernel_removed
   \<and> TaskTable_Lookup 0 kernel_removed = Inr (None, kernel_removed)
   \<and> Tasks kernel_removed task0 = Some ((Task_new cfg0)\<lparr>Pid := 0, RefCounter := 1\<rparr>)"
proof -
  let ?T = "(Task_new cfg0)\<lparr>Pid := 0, RefCounter := 3\<rparr>"
  have h1: "Tasks kernel_registered task0 = Some ?T"
    by (simp add: kernel_registered_def)
  have h2: "0 < RefCounter ?T" by simp
  have h3: "Pid ?T < length (ObjectArray kernel_registered)"
    and h4: "ObjectArray kernel_registered ! Pid ?T = Some task0"
    by (simp_all add: kernel_registered_def)
  from C2_Lookup_Remove_refcount [OF h1 h2 h3 h4] TaskTable_Remove_kernel_registered
  have "TaskTable_Lookup 0 kernel_registered =
       Inr (Some task0, setTask task0 ((Task_new cfg0)\<lparr>Pid := 0, RefCounter := 4\<rparr>) kernel_registered)"
    and "TaskTable_Lookup 0 kernel_removed = Inr (None, kernel_removed)"
    and "Tasks kernel_removed task0 = Some ((Task_new cfg0)\<lparr>Pid := 0, RefCounter := 1\<rparr>)"
    by simp_all
  with h1 h4 TaskTable_Remove_kernel_registered show ?thesis by simp
qed

theorem C2_refcount_drops_by_two_counterexample:
  "TaskTable_Insert cfg0 task0 kernel1 = Inr (True, kernel_registered)
   \<and> TaskTable_Remove task0 kernel_registered = Inr kernel_removed
   \<and> map_option RefCounter (Tasks kernel_registered task0) = Some 3
   \<and> map_option RefCounter (Tasks kernel_removed task0) = Some 1
   \<and> map_option RefCounter (Tasks kernel_removed task0) \<noteq> Some (3 - 1)"
  by (simp add: TaskTable_Insert_kernel1 TaskTable_Remove_kernel_registered)
    (simp add: kernel_registered_def kernel_removed_def Task_new_def)

lemma not_in_concat_removeAll: "t \<notin> set (concat (map (removeAll t) xs))"
  by auto

text \<open>
  C1. The specification says that after \<^verbatim>\<open>TaskTable::Remove\<close> the task's pid is again
  \<^verbatim>\<open>InvalidObjectId\<close>. \<^verbatim>\<open>Remove\<close> never writes the \<^verbatim>\<open>Pid\<close> field. What holds: a freshly
  constructed task has pid \<^verbatim>\<open>InvalidObjectId\<close>; a successful \<^verbatim>\<open>TaskTable::Insert\<close> needs the
  task to be in no bucket, assigns a valid pid (a slot index, different from
  \<^verbatim>\<open>InvalidObjectId\<close>) whose slot holds the task, and links the task in exactly one
  bucket; after \<^verbatim>\<open>TaskTable::Remove\<close> the task sits in no bucket, its slot is empty and
  the lookup of its pid returns null, while the task keeps the pid it had.
  (\<^verbatim>\<open>InvalidObjectId\<close> is not a slot index and the table has at least one bucket.)
\<close>

theorem C1_pid_lifecycle:
  assumes "length (ObjectArray s) \<le> InvalidObjectId cfg" and "TaskList s \<noteq> []"
    and "TaskTable_Insert cfg task s = Inr (True, s1)"
    and "TaskTable_Remove task s1 = Inr s2"
  shows "Pid (Task_new cfg) = InvalidObjectId cfg
         \<and> task \<notin> set (concat (TaskList s))
         \<and> (\<exists>T1 T2. Tasks s1 task = Some T1 \<and> Pid T1 < length (ObjectArray s1) \<and>
               Pid T1 \<noteq> InvalidObjectId cfg \<and> ObjectArray s1 ! Pid T1 = Some task \<and>
               (\<forall>j < length (TaskList s1).
                  task \<in> set (TaskList s1 ! j) \<longleftrightarrow> j = HashPtr cfg task mod length (TaskList s1)) \<and>
               task \<notin> set (concat (TaskList s2)) \<and> ObjectArray s2 ! Pid T1 = None \<and>
               TaskTable_Lookup (Pid T1) s2 = Inr (None, s2) \<and>
               Tasks s2 task = Some T2 \<and> Pid T2 = Pid T1 \<and> Pid T2 \<noteq> InvalidObjectId cfg)"
proof -
  let ?i = "HashPtr cfg task mod length (TaskList s)"
  from TaskTable_Insert_True [OF assms(3)]
  obtain T pid where T: "Tasks s task = Some T" and rc: "0 < RefCounter T"
    and scan: "InsertScan (ObjectArray s) 0 = Some pid"
    and emp: "task \<notin> set (concat (TaskList s))"
    and s1: "s1 = s\<lparr>Tasks := (Tasks s)(task \<mapsto> T\<lparr>Pid := pid, RefCounter := RefCounter T + 2\<rparr>),
                  ObjectArray := (ObjectArray s)[pid := Some task],
                  TaskList := (TaskList s)[?i := TaskList s ! ?i @ [task]]\<rparr>"
    by blast
  let ?T1 = "T\<lparr>Pid := pid, RefCounter := RefCounter T + 2\<rparr>"
  from InsertScan_Some [OF scan] have lt: "pid < length (ObjectArray s)" by simp
  with assms(1) have valid: "pid \<noteq> InvalidObjectId cfg" by simp
  have t1: "Tasks s1 task = Some ?T1" by (simp add: s1)
  have p1: "Pid ?T1 < length (ObjectArray s1)" using lt by (simp add: s1)
  have o1: "ObjectArray s1 ! Pid ?T1 = Some task" using lt by (simp add: s1)
  from assms(2) have i: "?i < length (TaskList s)" by simp
  have bucket: "\<forall>j < length (TaskList s1).
      task \<in> set (TaskList s1 ! j) \<longleftrightarrow> j = HashPtr cfg task mod length (TaskList s1)"
  proof (intro allI impI)
    fix j assume "j < length (TaskList s1)"
    then have j: "j < length (TaskList s)" by (simp add: s1)
    from emp j have "task \<notin> set (TaskList s ! j)" by auto
    with i j show "task \<in> set (TaskList s1 ! j) \<longleftrightarrow> j = HashPtr cfg task mod length (TaskList s1)"
      by (auto simp: s1 nth_list_update)
  qed
  from TaskTable_Remove_Inr [OF t1 p1 o1 assms(4)] rc
  have l2: "TaskList s2 = map (removeAll task) (TaskList s1)"
    and o2: "ObjectArray s2 = (ObjectArray s1)[Pid ?T1 := None]"
    and t2: "Tasks s2 task = Some (?T1\<lparr>RefCounter := RefCounter ?T1 - 2\<rparr>)"
    by simp_all
  have e2: "task \<notin> set (concat (TaskList s2))"
    unfolding l2 by (rule not_in_concat_removeAll)
  from o2 p1 have n2: "ObjectArray s2 ! Pid ?T1 = None" by simp
  then have lk: "TaskTable_Lookup (Pid ?T1) s2 = Inr (None, s2)"
    unfolding TaskTable_Lookup_def by (simp add: ObjectTable_Lookup_empty)
  have fresh: "Pid (Task_new cfg) = InvalidObjectId cfg"
    by (simp add: Task_new_def)
  have pv: "Pid ?T1 \<noteq> InvalidObjectId cfg" using valid by simp
  have p2: "Pid (?T1\<lparr>RefCounter := RefCounter ?T1 - 2\<rparr>) = Pid ?T1"
    and pv2: "Pid (?T1\<lparr>RefCounter := RefCounter ?T1 - 2\<rparr>) \<noteq> InvalidObjectId cfg"
    using valid by simp_all
  show ?thesis
    by (intro conjI exI) (rule fresh emp t1 p1 pv o1 bucket e2 n2 lk t2 p2 pv2)+
qed

theorem C1_pid_lifecycle_witness:
  "length (ObjectArray kernel1) \<le> InvalidObjectId cfg0 \<and> TaskList kernel1 \<noteq> []
   \<and> TaskTable_Insert cfg0 task0 kernel1 = Inr (True, kernel_registered)
   \<and> TaskTable_Remove task0 kernel_registered = Inr kernel_removed
   \<and> task0 \<notin> set (concat (TaskList kernel1))
   \<and> task0 \<notin> set (concat (TaskList kernel_removed))"
proof -
  have h1: "length (ObjectArray kernel1) \<le> InvalidObjectId cfg0"
    and h2: "TaskList kernel1 \<noteq> []"
    by (simp_all add: kernel1_def new_Task_def kernel0_def cfg0_def)
  from C1_pid_lifecycle [OF h1 h2 TaskTable_Insert_kernel1 TaskTable_Remove_kernel_registered]
  have "task0 \<notin> set (concat (TaskList kernel1))"
    and "task0 \<notin> set (concat (TaskList kernel_removed))"
    by blast+
  with h1 h2 TaskTable_Insert_kernel1 TaskTable_Remove_kernel_registered show ?thesis
    by simp
qed

theorem C1_pid_kept_after_Remove_counterexample:
  "Tasks kernel1 task0 = Some (Task_new cfg0)
   \<and> TaskTable_Insert cfg0 task0 kernel1 = Inr (True, kernel_registered)
   \<and> TaskTable_Remove task0 kernel_registered = Inr kernel_removed
   \<and> task0 \<notin> set (concat (TaskList kernel_removed))
   \<and> Some task0 \<notin> set (ObjectArray kernel_removed)
   \<and> map_option Pid (Tasks kernel_removed task0) = Some 0
   \<and> map_option Pid (Tasks kernel_removed task0) \<noteq> Some (InvalidObjectId cfg0)"
  by (simp add: TaskTable_Insert_kernel1 TaskTable_Remove_kernel_registered)
    (simp add: kernel_removed_def kernel1_def new_Task_def kernel0_def cfg0_def task0_def)

section \<open>Object table: lookup until removal\<close>

lemma table_refs_ok_iff:
  "table_refs_ok s \<longleftrightarrow>
     (\<forall>a. Some a \<in> set (ObjectArray s) \<longrightarrow>
        (\<exists>T. Tasks s a = Some T \<and> int (count_list (ObjectArray s) (Some a)) \<le> RefCounter T))"
  unfolding table_refs_ok_def list_all_iff
  by (auto split: option.splits) (metis option.exhaust)

lemma count_list_update:
  "i < length xs \<Longrightarrow>
     int (count_list (xs[i := y]) z) =
       int (count_list xs z) - (if xs ! i = z then 1 else 0) + (if y = z then 1 else 0)"
proof (induction xs arbitrary: i)
  case Nil
  then show ?case by simp
next
  case (Cons x xs)
  show ?case
  proof (cases i)
    case 0
    then show ?thesis by simp
  next
    case (Suc j)
    with Cons.prems have "j < length xs" by simp
    from Cons.IH [OF this] Suc show ?thesis by (auto split: if_splits)
  qed
qed

lemma count_list_pos: "z \<in> set xs \<longleftrightarrow> 0 < count_list xs z"
  using count_list_0_iff [of xs z] by auto

lemma owns_reference_iff:
  "owns_reference ob s \<longleftrightarrow>
     (\<exists>T. Tasks s ob = Some T \<and> int (count_list (ObjectArray s) (Some ob)) < RefCounter T)"
  by (auto simp: owns_reference_def split: option.splits)

lemma table_inv_Get:
  assumes "table_inv ob i s" and "Task_Get a s = Inr s'"
  shows "table_inv ob i s'"
proof -
  from assms(2) obtain T where T: "Tasks s a = Some T"
    and s': "s' = setTask a (T\<lparr>RefCounter := RefCounter T + 1\<rparr>) s"
    by (auto simp: Task_Get_Inr)
  have arr: "ObjectArray s' = ObjectArray s" by (simp add: s' setTask_def)
  have tk: "Tasks s' b = (if b = a then Some (T\<lparr>RefCounter := RefCounter T + 1\<rparr>) else Tasks s b)" for b
    by (simp add: s' setTask_def)
  from assms(1) T show ?thesis
    unfolding table_inv_def table_refs_ok_iff owns_reference_iff arr tk
    by (auto; fastforce)
qed

lemma table_inv_Lookup:
  assumes "table_inv ob i s" and "ObjectTable_Lookup j s = Inr (r, s')"
  shows "table_inv ob i s'"
  using assms
  by (auto simp: ObjectTable_Lookup_def bindE_eq_Inr split: if_splits option.splits
      intro: table_inv_Get)

lemma table_inv_Insert:
  assumes "table_inv ob i s" and "ObjectTable_Insert cfg a s = Inr (j, s')"
  shows "table_inv ob i s'"
proof -
  let ?arr = "ObjectArray s"
  from ObjectTable_Insert_Inr [OF assms(2)]
  obtain T where T: "Tasks s a = Some T" and rc: "0 < RefCounter T"
    and alt: "(InsertScan ?arr 0 = Some j \<and>
             s' = (setTask a (T\<lparr>RefCounter := RefCounter T + 1\<rparr>) s)\<lparr>ObjectArray := ?arr[j := Some a]\<rparr>)
            \<or> s' = s"
    by blast
  from alt show ?thesis
  proof
    assume "s' = s"
    with assms(1) show ?thesis by simp
  next
    assume ins: "InsertScan ?arr 0 = Some j \<and>
             s' = (setTask a (T\<lparr>RefCounter := RefCounter T + 1\<rparr>) s)\<lparr>ObjectArray := ?arr[j := Some a]\<rparr>"
    from InsertScan_Some [of ?arr 0 j] ins have j: "j < length ?arr" "?arr ! j = None" by simp_all
    have arr: "ObjectArray s' = ?arr[j := Some a]" using ins by (simp add: setTask_def)
    have tk: "Tasks s' b = (if b = a then Some (T\<lparr>RefCounter := RefCounter T + 1\<rparr>) else Tasks s b)" for b
      using ins by (simp add: setTask_def)
    have cnt: "int (count_list (?arr[j := Some a]) (Some b)) =
        int (count_list ?arr (Some b)) + (if a = b then 1 else 0)" for b
      using count_list_update [OF j(1), of "Some a" "Some b"] j(2) by simp
    from assms(1) have ok: "\<And>b. Some b \<in> set ?arr \<Longrightarrow>
        \<exists>Tb. Tasks s b = Some Tb \<and> int (count_list ?arr (Some b)) \<le> RefCounter Tb"
      and own: "\<exists>To. Tasks s ob = Some To \<and> int (count_list ?arr (Some ob)) < RefCounter To"
      and slot: "i < length ?arr" "?arr ! i = Some ob"
      by (simp_all add: table_inv_def table_refs_ok_iff owns_reference_iff)
    have a_ok: "int (count_list ?arr (Some a)) \<le> RefCounter T"
    proof (cases "Some a \<in> set ?arr")
      case True
      from ok [OF True] T show ?thesis by simp
    next
      case False
      then have "count_list ?arr (Some a) = 0" by simp
      with rc show ?thesis by simp
    qed
    have refs: "table_refs_ok s'"
      unfolding table_refs_ok_iff arr
    proof (intro allI impI)
      fix b assume "Some b \<in> set (?arr[j := Some a])"
      then have mem: "b = a \<or> Some b \<in> set ?arr"
        using set_update_subset_insert [of ?arr j "Some a"] by auto
      show "\<exists>Tb. Tasks s' b = Some Tb \<and> int (count_list (?arr[j := Some a]) (Some b)) \<le> RefCounter Tb"
      proof (cases "b = a")
        case True
        with a_ok show ?thesis by (simp add: tk cnt)
      next
        case False
        with mem ok [of b] show ?thesis by (simp add: tk cnt)
      qed
    qed
    have own': "owns_reference ob s'"
      unfolding owns_reference_iff arr using own T by (auto simp: tk cnt)
    from j slot have "i \<noteq> j" by auto
    with slot have slot': "i < length (ObjectArray s')" "ObjectArray s' ! i = Some ob"
      by (simp_all add: arr)
    from refs own' slot' show ?thesis by (simp add: table_inv_def)
  qed
qed

lemma table_inv_Remove:
  assumes "table_inv ob i s" and "ObjectTable_Remove j s = Inr s'" and "j \<noteq> i"
  shows "table_inv ob i s'"
proof (cases "j < length (ObjectArray s)")
  case False
  with assms(2) have "s' = s" by (simp add: ObjectTable_Remove_def)
  with assms(1) show ?thesis by simp
next
  case j: True
  let ?arr = "ObjectArray s"
  let ?s0 = "s\<lparr>ObjectArray := ?arr[j := None]\<rparr>"
  from assms(1) have ok: "\<And>b. Some b \<in> set ?arr \<Longrightarrow>
      \<exists>Tb. Tasks s b = Some Tb \<and> int (count_list ?arr (Some b)) \<le> RefCounter Tb"
    and own: "\<exists>To. Tasks s ob = Some To \<and> int (count_list ?arr (Some ob)) < RefCounter To"
    and slot: "i < length ?arr" "?arr ! i = Some ob"
    by (simp_all add: table_inv_def table_refs_ok_iff owns_reference_iff)
  have cnt: "int (count_list (?arr[j := None]) (Some b)) =
      int (count_list ?arr (Some b)) - (if ?arr ! j = Some b then 1 else 0)" for b
    using count_list_update [OF j, of None "Some b"] by simp
  have sub: "Some b \<in> set (?arr[j := None]) \<Longrightarrow> Some b \<in> set ?arr" for b
    using set_update_subset_insert [of ?arr j None] by auto
  from slot assms(3) have slot0: "i < length (?arr[j := None])" "?arr[j := None] ! i = Some ob"
    by simp_all
  show ?thesis
  proof (cases "?arr ! j")
    case None
    with assms(2) j have s': "s' = ?s0" by (simp add: ObjectTable_Remove_def Let_def)
    have refs: "table_refs_ok s'"
      unfolding table_refs_ok_iff s' using ok sub by (fastforce simp: cnt None)
    have own': "owns_reference ob s'"
      unfolding owns_reference_iff s' using own by (simp add: cnt None)
    from refs own' slot0 show ?thesis by (simp add: table_inv_def s')
  next
    case (Some a)
    with assms(2) j have put: "Task_Put a ?s0 = Inr s'"
      by (simp add: ObjectTable_Remove_def Let_def)
    from Task_Put_Inr [OF put] obtain T where T: "Tasks s a = Some T" and rc: "0 < RefCounter T"
      and arr: "ObjectArray s' = ?arr[j := None]"
      and oth: "\<And>b. b \<noteq> a \<Longrightarrow> Tasks s' b = Tasks s b"
      and tk: "Tasks s' a = (if RefCounter T = 1 then None else Some (T\<lparr>RefCounter := RefCounter T - 1\<rparr>))"
      by auto
    have refs: "table_refs_ok s'"
      unfolding table_refs_ok_iff arr
    proof (intro allI impI)
      fix b assume mem: "Some b \<in> set (?arr[j := None])"
      from ok [OF sub [OF mem]] obtain Tb where Tb: "Tasks s b = Some Tb"
        "int (count_list ?arr (Some b)) \<le> RefCounter Tb" by blast
      show "\<exists>Tb. Tasks s' b = Some Tb \<and> int (count_list (?arr[j := None]) (Some b)) \<le> RefCounter Tb"
      proof (cases "b = a")
        case False
        with Tb Some show ?thesis by (simp add: oth cnt)
      next
        case True
        from mem have "0 < count_list (?arr[j := None]) (Some b)" by (simp add: count_list_pos)
        then have "0 < int (count_list (?arr[j := None]) (Some b))" by simp
        with True Some Tb T have "RefCounter T \<noteq> 1" by (simp add: cnt)
        with True Some Tb T show ?thesis by (simp add: tk cnt)
      qed
    qed
    have own': "owns_reference ob s'"
    proof (cases "ob = a")
      case False
      with own Some show ?thesis
        unfolding owns_reference_iff arr by (simp add: oth cnt)
    next
      case True
      from slot have "Some ob \<in> set ?arr" by (metis nth_mem)
      then have "0 < int (count_list ?arr (Some ob))" by (simp add: count_list_pos)
      with own True T have "RefCounter T \<noteq> 1" by auto
      with own True T Some show ?thesis
        unfolding owns_reference_iff arr by (simp add: tk cnt)
    qed
    from refs own' slot0 show ?thesis by (simp add: table_inv_def arr)
  qed
qed

lemma table_inv_call:
  assumes "table_inv ob i s" and "table_call cfg c s = Inr s'" and "c \<noteq> CallRemove i"
  shows "table_inv ob i s'"
proof (cases c)
  case (CallInsert a)
  with assms(2) obtain j where "ObjectTable_Insert cfg a s = Inr (j, s')"
    by (auto simp: bindE_eq_Inr)
  from table_inv_Insert [OF assms(1) this] show ?thesis .
next
  case (CallRemove j)
  with assms(2,3) have "ObjectTable_Remove j s = Inr s'" "j \<noteq> i" by simp_all
  from table_inv_Remove [OF assms(1) this] show ?thesis .
next
  case (CallLookup j)
  with assms(2) obtain r where "ObjectTable_Lookup j s = Inr (r, s')"
    by (auto simp: bindE_eq_Inr)
  from table_inv_Lookup [OF assms(1) this] show ?thesis .
qed

lemma table_inv_calls:
  assumes "table_inv ob i s" and "table_calls cfg cs s = Inr s'" and "CallRemove i \<notin> set cs"
  shows "table_inv ob i s'"
  using assms
proof (induction cs arbitrary: s)
  case Nil
  then show ?case by simp
next
  case (Cons c cs)
  from Cons.prems(2) obtain s1 where c: "table_call cfg c s = Inr s1"
    and rest: "table_calls cfg cs s1 = Inr s'"
    by (auto simp: bindE_eq_Inr)
  from Cons.prems(3) have ne: "c \<noteq> CallRemove i" and notin: "CallRemove i \<notin> set cs" by auto
  from table_inv_call [OF Cons.prems(1) c ne] have "table_inv ob i s1" .
  from Cons.IH [OF this rest notin] show ?case .
qed

lemma ObjectTable_Insert_free:
  assumes "Tasks s ob = Some T" and "0 < RefCounter T" and "InsertScan (ObjectArray s) 0 = Some j"
  shows "ObjectTable_Insert cfg ob s =
           Inr (j, (setTask ob (T\<lparr>RefCounter := RefCounter T + 1\<rparr>) s)
                     \<lparr>ObjectArray := (ObjectArray s)[j := Some ob]\<rparr>)"
  using assms by (simp add: ObjectTable_Insert_def Task_Get_def setTask_def)

lemma table_inv_established:
  assumes "table_refs_ok s" and "owns_reference ob s"
    and "ObjectTable_Insert cfg ob s = Inr (j, s1)" and "InsertScan (ObjectArray s) 0 = Some j"
  shows "table_inv ob j s1"
proof -
  let ?arr = "ObjectArray s"
  from assms(2) obtain T where T: "Tasks s ob = Some T"
    and own: "int (count_list ?arr (Some ob)) < RefCounter T"
    by (auto simp: owns_reference_iff)
  then have rc: "0 < RefCounter T" by (smt (verit) of_nat_0_le_iff)
  from ObjectTable_Insert_free [OF T rc assms(4), of cfg] assms(3)
  have s1: "s1 = (setTask ob (T\<lparr>RefCounter := RefCounter T + 1\<rparr>) s)\<lparr>ObjectArray := ?arr[j := Some ob]\<rparr>"
    by simp
  from InsertScan_Some [OF assms(4)] have j: "j < length ?arr" "?arr ! j = None" by simp_all
  have arr: "ObjectArray s1 = ?arr[j := Some ob]" by (simp add: s1 setTask_def)
  have tk: "Tasks s1 b = (if b = ob then Some (T\<lparr>RefCounter := RefCounter T + 1\<rparr>) else Tasks s b)" for b
    by (simp add: s1 setTask_def)
  have cnt: "int (count_list (?arr[j := Some ob]) (Some b)) =
      int (count_list ?arr (Some b)) + (if ob = b then 1 else 0)" for b
    using count_list_update [OF j(1), of "Some ob" "Some b"] j(2) by simp
  from assms(1) have ok: "\<And>b. Some b \<in> set ?arr \<Longrightarrow>
      \<exists>Tb. Tasks s b = Some Tb \<and> int (count_list ?arr (Some b)) \<le> RefCounter Tb"
    by (simp add: table_refs_ok_iff)
  have refs: "table_refs_ok s1"
    unfolding table_refs_ok_iff arr
  proof (intro allI impI)
    fix b assume "Some b \<in> set (?arr[j := Some ob])"
    then have mem: "b = ob \<or> Some b \<in> set ?arr"
      using set_update_subset_insert [of ?arr j "Some ob"] by auto
    show "\<exists>Tb. Tasks s1 b = Some Tb \<and> int (count_list (?arr[j := Some ob]) (Some b)) \<le> RefCounter Tb"
    proof (cases "b = ob")
      case True
      with own show ?thesis by (simp add: tk cnt)
    next
      case False
      with mem ok [of b] show ?thesis by (simp add: tk cnt)
    qed
  qed
  have own': "owns_reference ob s1"
    unfolding owns_reference_iff arr using own by (simp add: tk cnt)
  from refs own' j show ?thesis by (simp add: table_inv_def arr)
qed

text \<open>
  C4. For every object \<open>ob\<close> on which the caller holds a reference and every state of
  the object table with a free slot (and counts that cover the occupied slots),
  \<^verbatim>\<open>Insert(ob)\<close> returns a slot index \<open>id\<close>; after any sequence of table calls that does
  not contain \<^verbatim>\<open>Remove(id)\<close>, \<^verbatim>\<open>Lookup(id)\<close> returns \<open>ob\<close> and has taken exactly one more
  reference on it; \<^verbatim>\<open>Remove(id)\<close> then returns, and after it \<^verbatim>\<open>Lookup(id)\<close> returns null
  and changes nothing.
\<close>

theorem C4_Insert_Lookup_until_Remove:
  assumes "table_refs_ok s" and "owns_reference ob s" and "None \<in> set (ObjectArray s)"
  shows "\<exists>objectId s1. ObjectTable_Insert cfg ob s = Inr (objectId, s1) \<and>
           objectId < length (ObjectArray s) \<and>
           (\<forall>cs s2. table_calls cfg cs s1 = Inr s2 \<and> CallRemove objectId \<notin> set cs \<longrightarrow>
              (\<exists>T2. Tasks s2 ob = Some T2 \<and>
                 ObjectTable_Lookup objectId s2 =
                   Inr (Some ob, setTask ob (T2\<lparr>RefCounter := RefCounter T2 + 1\<rparr>) s2)) \<and>
              (\<exists>s3. ObjectTable_Remove objectId s2 = Inr s3 \<and>
                 ObjectTable_Lookup objectId s3 = Inr (None, s3)))"
proof -
  from assms(2) obtain T where T: "Tasks s ob = Some T"
    and own: "int (count_list (ObjectArray s) (Some ob)) < RefCounter T"
    by (auto simp: owns_reference_iff)
  then have rc: "0 < RefCounter T" by (smt (verit) of_nat_0_le_iff)
  from assms(3) obtain i where "i < length (ObjectArray s)" "ObjectArray s ! i = None"
    by (auto simp: in_set_conv_nth)
  from InsertScan_free [OF this] obtain j where scan: "InsertScan (ObjectArray s) 0 = Some j" ..
  let ?s1 = "(setTask ob (T\<lparr>RefCounter := RefCounter T + 1\<rparr>) s)
               \<lparr>ObjectArray := (ObjectArray s)[j := Some ob]\<rparr>"
  have ins: "ObjectTable_Insert cfg ob s = Inr (j, ?s1)"
    by (rule ObjectTable_Insert_free [OF T rc scan])
  from InsertScan_Some [OF scan] have j: "j < length (ObjectArray s)" by simp
  have inv1: "table_inv ob j ?s1"
    by (rule table_inv_established [OF assms(1,2) ins scan])
  have after: "(\<exists>T2. Tasks s2 ob = Some T2 \<and>
                 ObjectTable_Lookup j s2 =
                   Inr (Some ob, setTask ob (T2\<lparr>RefCounter := RefCounter T2 + 1\<rparr>) s2)) \<and>
              (\<exists>s3. ObjectTable_Remove j s2 = Inr s3 \<and> ObjectTable_Lookup j s3 = Inr (None, s3))"
    if run: "table_calls cfg cs ?s1 = Inr s2" and nr: "CallRemove j \<notin> set cs" for cs s2
  proof -
    from table_inv_calls [OF inv1 run nr] have inv2: "table_inv ob j s2" .
    then obtain T2 where T2: "Tasks s2 ob = Some T2"
      and own2: "int (count_list (ObjectArray s2) (Some ob)) < RefCounter T2"
      and slot: "j < length (ObjectArray s2)" "ObjectArray s2 ! j = Some ob"
      by (auto simp: table_inv_def owns_reference_iff)
    from slot have "Some ob \<in> set (ObjectArray s2)" by (metis nth_mem)
    then have "0 < int (count_list (ObjectArray s2) (Some ob))" by (simp add: count_list_pos)
    with own2 have rc2: "1 < RefCounter T2" by simp
    then have rc2': "0 < RefCounter T2" by simp
    have look: "ObjectTable_Lookup j s2 =
        Inr (Some ob, setTask ob (T2\<lparr>RefCounter := RefCounter T2 + 1\<rparr>) s2)"
      by (rule ObjectTable_Lookup_hit [OF slot T2 rc2'])
    let ?s0 = "s2\<lparr>ObjectArray := (ObjectArray s2)[j := None]\<rparr>"
    let ?s3 = "setTask ob (T2\<lparr>RefCounter := RefCounter T2 - 1\<rparr>) ?s0"
    have t0: "Tasks ?s0 ob = Some T2" using T2 by simp
    have rem: "ObjectTable_Remove j s2 = Inr ?s3"
      using slot Task_Put_keep [OF t0 rc2] by (simp add: ObjectTable_Remove_def Let_def)
    have "ObjectArray ?s3 ! j = None" using slot by (simp add: setTask_def)
    then have "ObjectTable_Lookup j ?s3 = Inr (None, ?s3)"
      by (simp add: ObjectTable_Lookup_empty)
    with T2 look rem show ?thesis by blast
  qed
  from ins j after show ?thesis by blast
qed

lemma ObjectTable_Insert_kernel1:
  "ObjectTable_Insert cfg0 task0 kernel1 = Inr (0, kernel_slot0)"
  by (simp add: ObjectTable_Insert_def Task_Get_def setTask_def InsertScan.simps
      kernel_slot0_def kernel1_def new_Task_def kernel0_def Task_new_def)

lemma table_calls_kernel_slot0:
  "table_calls cfg0 [CallLookup 0] kernel_slot0 = Inr kernel_slot0_looked"
  by (simp add: ObjectTable_Lookup_def Task_Get_def setTask_def
      kernel_slot0_looked_def kernel_slot0_def kernel1_def new_Task_def kernel0_def Task_new_def)

theorem C4_Insert_Lookup_until_Remove_witness:
  "table_refs_ok kernel1 \<and> owns_reference task0 kernel1 \<and> None \<in> set (ObjectArray kernel1)
   \<and> ObjectTable_Insert cfg0 task0 kernel1 = Inr (0, kernel_slot0)
   \<and> table_calls cfg0 [CallLookup 0] kernel_slot0 = Inr kernel_slot0_looked
   \<and> ObjectTable_Lookup 0 kernel_slot0_looked =
        Inr (Some task0, setTask task0 ((Task_new cfg0)\<lparr>RefCounter := 4\<rparr>) kernel_slot0_looked)
   \<and> (\<exists>s3. ObjectTable_Remove 0 kernel_slot0_looked = Inr s3 \<and>
             ObjectTable_Lookup 0 s3 = Inr (None, s3))"
proof -
  have h1: "table_refs_ok kernel1"
    by (simp add: table_refs_ok_def kernel1_def new_Task_def kernel0_def)
  have h2: "owns_reference task0 kernel1"
    by (simp add: owns_reference_def kernel1_def new_Task_def kernel0_def Task_new_def)
  have h3: "None \<in> set (ObjectArray kernel1)"
    by (simp add: kernel1_def new_Task_def kernel0_def)
  have nr: "CallRemove 0 \<notin> set [CallLookup 0]" by simp
  have t2: "Tasks kernel_slot0_looked task0 = Some ((Task_new cfg0)\<lparr>RefCounter := 3\<rparr>)"
    by (simp add: kernel_slot0_looked_def setTask_def)
  from C4_Insert_Lookup_until_Remove [OF h1 h2 h3, of cfg0]
  obtain objectId s1 where ins: "ObjectTable_Insert cfg0 task0 kernel1 = Inr (objectId, s1)"
    and after: "\<forall>cs s2. table_calls cfg0 cs s1 = Inr s2 \<and> CallRemove objectId \<notin> set cs \<longrightarrow>
              (\<exists>T2. Tasks s2 task0 = Some T2 \<and>
                 ObjectTable_Lookup objectId s2 =
                   Inr (Some task0, setTask task0 (T2\<lparr>RefCounter := RefCounter T2 + 1\<rparr>) s2)) \<and>
              (\<exists>s3. ObjectTable_Remove objectId s2 = Inr s3 \<and>
                 ObjectTable_Lookup objectId s3 = Inr (None, s3))"
    by blast
  from ins have id: "objectId = 0" and s1: "s1 = kernel_slot0"
    by (simp_all add: ObjectTable_Insert_kernel1)
  have pre: "table_calls cfg0 [CallLookup 0] kernel_slot0 = Inr kernel_slot0_looked \<and>
      CallRemove 0 \<notin> set [CallLookup 0]"
    using table_calls_kernel_slot0 nr by (rule conjI)
  from after [unfolded id s1, rule_format, OF pre]
  have look: "\<exists>T2. Tasks kernel_slot0_looked task0 = Some T2 \<and>
                 ObjectTable_Lookup 0 kernel_slot0_looked =
                   Inr (Some task0, setTask task0 (T2\<lparr>RefCounter := RefCounter T2 + 1\<rparr>) kernel_slot0_looked)"
    and rem: "\<exists>s3. ObjectTable_Remove 0 kernel_slot0_looked = Inr s3 \<and>
                 ObjectTable_Lookup 0 s3 = Inr (None, s3)"
    by blast+
  from look t2 have "ObjectTable_Lookup 0 kernel_slot0_looked =
        Inr (Some task0, setTask task0 ((Task_new cfg0)\<lparr>RefCounter := 4\<rparr>) kernel_slot0_looked)"
    by auto
  with h1 h2 h3 rem ObjectTable_Insert_kernel1 table_calls_kernel_slot0 show ?thesis
    by (intro conjI)
qed

end
